theory Spec2Isabelle
  imports Complex_Main
begin

section \<open>JavaScript values and the built-in conversions the logger relies on\<close>

text \<open>
  The logger receives arbitrary JavaScript values (log arguments, labels, options,
  imported data). Strings are byte strings (\<open>char list\<close>); code units above 255 are
  outside this model. Numbers are the decimal numbers of at most 15 significant digits,
  which a double holds and prints exactly: \<open>JNum n\<close> is the integer \<open>n\<close>, \<open>JDec m e\<close> the
  number \<open>m\<close> times ten to the power \<open>e\<close> that is not an integer (\<open>m\<close> is not divisible by
  ten and \<open>e\<close> is negative).
  \<open>JExotic s j\<close> is an object with conversion hooks of its own: \<open>s\<close> is what
  \<open>String(v)\<close> returns and \<open>j\<close> what \<open>JSON.stringify(v)\<close> returns, \<open>None\<close>
  when the conversion throws (a null-prototype object, a throwing \<open>toString\<close> or
  \<open>toJSON\<close>, a cyclic structure).
\<close>

datatype jsval =
    JUndefined
  | JNull
  | JBool bool
  | JNum int
  | JDec int int
  | JStr string
  | JBigInt int
  | JSymbol nat
  | JFunc nat
  | JArr "jsval list"
  | JObj "(string \<times> jsval) list"
  | JExotic "string option" "string option"

datatype error = TypeError | SyntaxError | Thrown

text \<open>\<open>Array.isArray(v)\<close>.\<close>

fun isArray :: "jsval \<Rightarrow> bool" where
  "isArray (JArr xs) = True"
| "isArray v = False"

text \<open>ToBoolean: the values that \<open>||\<close>, \<open>&&\<close> and \<open>!\<close> treat as false.\<close>

fun truthy :: "jsval \<Rightarrow> bool" where
  "truthy JUndefined = False"
| "truthy JNull = False"
| "truthy (JBool b) = b"
| "truthy (JNum n) = (n \<noteq> 0)"
| "truthy (JDec m e) = (m \<noteq> 0)"
| "truthy (JStr s) = (s \<noteq> [])"
| "truthy (JBigInt n) = (n \<noteq> 0)"
| "truthy v = True"

text \<open>Decimal digits of a natural number.\<close>

fun digits :: "nat \<Rightarrow> string" where
  "digits n = (if n < 10 then [char_of (48 + n)] else digits (n div 10) @ [char_of (48 + n mod 10)])"

declare digits.simps [simp del]

text \<open>The number without its trailing zeros, and how many there were.\<close>

fun strip_zeros :: "nat \<Rightarrow> nat \<times> nat" where
  "strip_zeros m =
     (if m \<noteq> 0 \<and> m mod 10 = 0
      then (case strip_zeros (m div 10) of (a, z) \<Rightarrow> (a, Suc z))
      else (m, 0))"

declare strip_zeros.simps [simp del]

text \<open>
  \<open>Number::toString\<close> for the number with the digits of \<open>m\<close> (no trailing zero) times ten
  to the power \<open>e\<close>: plain digits up to 21 places, a decimal point, leading zeros down
  to \<open>1e-6\<close>, the exponent form otherwise.
\<close>

definition decimal_text :: "bool \<Rightarrow> nat \<Rightarrow> int \<Rightarrow> string" where
  "decimal_text negative m e =
     (let ds = digits m; k = int (length ds); n = k + e;
          body =
            (if k \<le> n \<and> n \<le> 21 then ds @ replicate (nat (n - k)) (CHR ''0'')
             else if 0 < n \<and> n \<le> 21 then take (nat n) ds @ ''.'' @ drop (nat n) ds
             else if - 6 < n \<and> n \<le> 0 then ''0.'' @ replicate (nat (- n)) (CHR ''0'') @ ds
             else take 1 ds @ (if k = 1 then [] else ''.'' @ drop 1 ds) @ ''e''
                  @ (if n - 1 < 0 then ''-'' else ''+'') @ digits (nat \<bar>n - 1\<bar>))
      in if negative then CHR ''-'' # body else body)"

definition show_int :: "int \<Rightarrow> string" where
  "show_int i =
     (if i = 0 then ''0''
      else (case strip_zeros (nat \<bar>i\<bar>) of (m, z) \<Rightarrow> decimal_text (i < 0) m (int z)))"

text \<open>The text of a BigInt: all its digits.\<close>

definition show_bigint :: "int \<Rightarrow> string" where
  "show_bigint i = (if i < 0 then CHR ''-'' # digits (nat (- i)) else digits (nat i))"

definition show_dec :: "int \<Rightarrow> int \<Rightarrow> string" where
  "show_dec m e = (if m = 0 then ''0'' else decimal_text (m < 0) (nat \<bar>m\<bar>) e)"

definition is_digit :: "char \<Rightarrow> bool" where
  "is_digit c = (48 \<le> (of_char c :: nat) \<and> (of_char c :: nat) \<le> 57)"

definition digits_value :: "string \<Rightarrow> int" where
  "digits_value ds = foldl (\<lambda>a c. 10 * a + (int (of_char c) - 48)) 0 ds"

text \<open>
  The order in which the properties of an object are visited (\<open>for ... in\<close>,
  \<open>JSON.stringify\<close>): the keys that are array indices first, in ascending order, then
  the other keys in the order of their creation.
\<close>

definition is_index :: "string \<Rightarrow> bool" where
  "is_index s =
     (s \<noteq> [] \<and> list_all is_digit s \<and> (length s = 1 \<or> hd s \<noteq> CHR ''0'')
      \<and> digits_value s < 4294967295)"

definition property_order :: "(string \<times> 'a) list \<Rightarrow> (string \<times> 'a) list" where
  "property_order kvs =
     sort_key (\<lambda>kv. digits_value (fst kv)) (filter (\<lambda>kv. is_index (fst kv)) kvs)
     @ filter (\<lambda>kv. \<not> is_index (fst kv)) kvs"

text \<open>
  The names that every plain object inherits from \<open>Object.prototype\<close>. All of them
  are functions but \<open>__proto__\<close>, which is the prototype itself; none is a number.
\<close>

definition inherited_members :: "string list" where
  "inherited_members =
     [''constructor'', ''hasOwnProperty'', ''isPrototypeOf'', ''propertyIsEnumerable'',
      ''toLocaleString'', ''toString'', ''valueOf'', ''__proto__'',
      ''__defineGetter__'', ''__defineSetter__'', ''__lookupGetter__'', ''__lookupSetter__'']"

fun join :: "string \<Rightarrow> string list \<Rightarrow> string" where
  "join sep [] = []"
| "join sep [x] = x"
| "join sep (x # y # ys) = x @ sep @ join sep (y # ys)"

text \<open>
  \<open>String(v)\<close>. It throws where ToPrimitive throws; an array joins the texts of its
  elements with commas, \<open>null\<close> and \<open>undefined\<close> elements giving the empty text, and
  throws on an element that is a symbol.
\<close>

fun js_String :: "jsval \<Rightarrow> error + string" where
  "js_String JUndefined = Inr ''undefined''"
| "js_String JNull = Inr ''null''"
| "js_String (JBool b) = Inr (if b then ''true'' else ''false'')"
| "js_String (JNum n) = Inr (show_int n)"
| "js_String (JDec m e) = Inr (show_dec m e)"
| "js_String (JStr s) = Inr s"
| "js_String (JBigInt n) = Inr (show_bigint n)"
| "js_String (JSymbol n) = Inr (''Symbol('' @ digits n @ '')'')"
| "js_String (JFunc f) = Inr (''function f'' @ digits f @ ''() {}'')"
| "js_String (JArr xs) =
     (if list_all (\<lambda>x. case x of JUndefined \<Rightarrow> True | JNull \<Rightarrow> True | JSymbol n \<Rightarrow> False
                         | _ \<Rightarrow> isl (js_String x) = False) xs
      then Inr (join '','' (map (\<lambda>x. case x of JUndefined \<Rightarrow> [] | JNull \<Rightarrow> [] | _ \<Rightarrow> projr (js_String x)) xs))
      else Inl TypeError)"
| "js_String (JObj kvs) = Inr ''[object Object]''"
| "js_String (JExotic s j) = (case s of None \<Rightarrow> Inl TypeError | Some t \<Rightarrow> Inr t)"

text \<open>
  Property read \<open>v.k\<close>: a TypeError on \<open>null\<close> and \<open>undefined\<close>, the own property of a
  plain object, \<open>undefined\<close> for every other value (the keys read by the logger are
  not properties of the built-in prototypes).
\<close>

fun js_get :: "jsval \<Rightarrow> string \<Rightarrow> error + jsval" where
  "js_get JUndefined k = Inl TypeError"
| "js_get JNull k = Inl TypeError"
| "js_get (JObj kvs) k = Inr (case map_of kvs k of None \<Rightarrow> JUndefined | Some v \<Rightarrow> v)"
| "js_get v k = Inr JUndefined"

section \<open>Regular expressions built by the logger\<close>

text \<open>
  The only regular expressions the logger builds are \<open>new RegExp('^' + escaped + '$')\<close>.
  A pattern source is read into atoms: an escaped syntax character, an ordinary
  character, \<open>.\<close>, \<open>.*\<close>, and the assertions \<open>^\<close> and \<open>$\<close>. No flag is given,
  so \<open>.\<close> matches every character except a line terminator and \<open>$\<close> matches at the
  end of input only. A source outside this fragment is refused.
\<close>

datatype ratom = RStart | REnd | RLit char | RDot | RDotStar

type_synonym regex = "ratom list"

definition syntax_chars :: "char list" where
  "syntax_chars = [CHR ''.'', CHR ''+'', CHR ''?'', CHR ''^'', CHR ''$'', CHR ''{'', CHR ''}'',
                   CHR ''('', CHR '')'', CHR ''|'', CHR ''['', CHR '']'', CHR 0x5C, CHR ''*'']"

fun RegExp :: "string \<Rightarrow> error + regex" where
  "RegExp [] = Inr []"
| "RegExp (c # cs) =
     (if c = CHR 0x5C then
        (case cs of
           [] \<Rightarrow> Inl SyntaxError
         | d # ds \<Rightarrow>
             if d \<in> set syntax_chars
             then (case RegExp ds of Inl e \<Rightarrow> Inl e | Inr r \<Rightarrow> Inr (RLit d # r))
             else Inl SyntaxError)
      else if c = CHR ''.'' then
        (case cs of
           [] \<Rightarrow> Inr [RDot]
         | d # ds \<Rightarrow>
             if d = CHR ''*''
             then (case RegExp ds of Inl e \<Rightarrow> Inl e | Inr r \<Rightarrow> Inr (RDotStar # r))
             else (case RegExp cs of Inl e \<Rightarrow> Inl e | Inr r \<Rightarrow> Inr (RDot # r)))
      else if c = CHR ''^'' then
        (case RegExp cs of Inl e \<Rightarrow> Inl e | Inr r \<Rightarrow> Inr (RStart # r))
      else if c = CHR ''$'' then
        (case RegExp cs of Inl e \<Rightarrow> Inl e | Inr r \<Rightarrow> Inr (REnd # r))
      else if c \<in> set syntax_chars then Inl SyntaxError
      else (case RegExp cs of Inl e \<Rightarrow> Inl e | Inr r \<Rightarrow> Inr (RLit c # r)))"

definition line_terminator :: "char \<Rightarrow> bool" where
  "line_terminator c = (c = CHR 0x0A \<or> c = CHR 0x0D)"

text \<open>
  \<open>matches r b s\<close>: the atoms \<open>r\<close> match a prefix of the rest \<open>s\<close> of the input;
  \<open>b\<close> says that the current position is the start of the input.
\<close>

fun matches :: "regex \<Rightarrow> bool \<Rightarrow> string \<Rightarrow> bool" where
  "matches [] b s = True"
| "matches (RStart # r) b s = (b \<and> matches r b s)"
| "matches (REnd # r) b s = (s = [] \<and> matches r b s)"
| "matches (RLit c # r) b [] = False"
| "matches (RLit c # r) b (x # xs) = (x = c \<and> matches r False xs)"
| "matches (RDot # r) b [] = False"
| "matches (RDot # r) b (x # xs) = (\<not> line_terminator x \<and> matches r False xs)"
| "matches (RDotStar # r) b [] = matches r b []"
| "matches (RDotStar # r) b (x # xs) =
     (matches r b (x # xs) \<or> (\<not> line_terminator x \<and> matches (RDotStar # r) False xs))"

text \<open>\<open>re.test(s)\<close>: a match may start at any position of the input.\<close>

definition test :: "regex \<Rightarrow> string \<Rightarrow> bool" where
  "test r s = list_ex (\<lambda>i. matches r (i = 0) (drop i s)) [0 ..< Suc (length s)]"

text \<open>
  \<open>createWildcardRegex\<close>: the first \<open>replace\<close> puts a backslash before each of
  \<open>. + ? ^ $ { } ( ) | [ ] \\<close>, the second turns each \<open>*\<close> into \<open>.*\<close>.
\<close>

definition escaped_class :: "char list" where
  "escaped_class = [CHR ''.'', CHR ''+'', CHR ''?'', CHR ''^'', CHR ''$'', CHR ''{'', CHR ''}'',
                    CHR ''('', CHR '')'', CHR ''|'', CHR ''['', CHR '']'', CHR 0x5C]"

fun escape_specials :: "string \<Rightarrow> string" where
  "escape_specials [] = []"
| "escape_specials (c # cs) =
     (if c \<in> set escaped_class then CHR 0x5C # c # escape_specials cs else c # escape_specials cs)"

fun star_to_dotstar :: "string \<Rightarrow> string" where
  "star_to_dotstar [] = []"
| "star_to_dotstar (c # cs) =
     (if c = CHR ''*'' then CHR ''.'' # CHR ''*'' # star_to_dotstar cs else c # star_to_dotstar cs)"

definition createWildcardRegex :: "string \<Rightarrow> error + regex" where
  "createWildcardRegex token = RegExp (''^'' @ star_to_dotstar (escape_specials token) @ ''$'')"

section \<open>The logger state\<close>

text \<open>\<open>LEVELS\<close>: the own properties of the table of level weights.\<close>

definition LEVELS :: "string \<Rightarrow> int option" where
  "LEVELS = map_of [(''trace'', 10), (''debug'', 20), (''log'', 30), (''info'', 40),
                    (''warn'', 50), (''error'', 60)]"

text \<open>
  What \<open>LEVELS[name]\<close> reads: the weight of a level, or the member of that name
  inherited from \<open>Object.prototype\<close>, or \<open>undefined\<close>. A rule of \<open>setNamespaceLevels\<close>
  holds a weight or such a member.
\<close>

datatype level_value = Weight int | Member string


text \<open>
  \<open>a < v\<close> for a weight \<open>a\<close>: a member of \<open>Object.prototype\<close> converts to \<open>NaN\<close>, and
  no number is below \<open>NaN\<close>.
\<close>

fun below :: "int \<Rightarrow> level_value \<Rightarrow> bool" where
  "below a (Weight n) = (a < n)"
| "below a (Member m) = False"

text \<open>
  An entry of the history: \<open>{ time, level, namespace, preview }\<close>. The logger stores
  strings, but the entry objects are shared with the callers of \<open>getBuffer\<close> and the
  fields are read from the object that the transports were given, so a field can hold
  any value.
\<close>

record buffer_entry =
  entry_time :: jsval
  entry_level :: jsval
  entry_namespace :: jsval
  entry_preview :: jsval

text \<open>The record handed to the transports: the entry with \<open>args\<close> and the optional \<open>stack\<close>.\<close>

record log_record =
  rec_time :: jsval
  rec_level :: jsval
  rec_namespace :: jsval
  rec_preview :: jsval
  rec_args :: "jsval list"
  rec_stack :: "string option"

text \<open>
  The part of \<open>state.config\<close> that the pipeline reads. A redactor is a function of the
  argument array, the level and the namespace; it returns a value or throws.
\<close>

record config =
  level :: string
  namespaces :: string
  bufferSize :: int
  printToNative :: bool
  captureStack :: jsval

type_synonym redactor = "jsval list \<Rightarrow> string \<Rightarrow> string \<Rightarrow> error + jsval"

record state =
  config :: config
  levelWeight :: int
  includePatterns :: "regex list"
  excludePatterns :: "regex list"
  buffer :: "buffer_entry list"
  transports :: "nat list"
  paused :: bool
  onceKeys :: "string set"
  nsLevelRules :: "(regex \<times> level_value) list"
  sampleRules :: "(regex \<times> rat) list"
  redactorFn :: "redactor option"

text \<open>
  What a transport function does when it is called with the entry: the calls of
  \<open>addTransport\<close> and \<open>removeTransport\<close> it makes, the entry object as it leaves it (it
  may have changed or deleted fields), and whether it throws. What it does may depend
  on the calls made to the transports before. Other calls into the logger from inside
  a transport are outside this model.
\<close>

datatype transport_op = Add jsval | Remove jsval

record sink_result =
  sink_ops :: "transport_op list"
  sink_entry :: log_record
  sink_threw :: bool

text \<open>
  What the pipeline reads from and does to its surroundings: the wall clock, the values
  \<open>Math.random()\<close> returns one after the other and how many of them were drawn, the
  monotonic clock, the text of a captured stack, the source text that \<open>String\<close> gives
  for a built-in function, what each transport function does, the calls made to the
  transports and to the native console, in order.
\<close>

record world =
  now :: string
  random :: "nat \<Rightarrow> rat"
  draws :: nat
  nowMs :: int
  stack_text :: string
  native_text :: "string \<Rightarrow> string"
  sink_run :: "(nat \<times> log_record) list \<Rightarrow> nat \<Rightarrow> log_record \<Rightarrow> sink_result"
  delivered :: "(nat \<times> log_record) list"
  native_throws :: bool
  printed :: "(string \<times> jsval list) list"

section \<open>Level and namespace configuration\<close>

definition setLevel :: "string \<Rightarrow> state \<Rightarrow> state" where
  "setLevel levelName st =
     (case LEVELS levelName of
        None \<Rightarrow> st
      | Some w \<Rightarrow> st\<lparr>config := (config st)\<lparr>level := levelName\<rparr>, levelWeight := w\<rparr>)"


text \<open>White space as \<open>\s\<close> and \<open>trim\<close> see it, among the byte characters.\<close>

definition is_space :: "char \<Rightarrow> bool" where
  "is_space c = (c \<in> set [CHR 0x09, CHR 0x0A, CHR 0x0B, CHR 0x0C, CHR 0x0D, CHR 0x20, CHR 0xA0])"

definition trim :: "string \<Rightarrow> string" where
  "trim s = rev (dropWhile is_space (rev (dropWhile is_space s)))"

text \<open>\<open>s.replace(/\s+/g, ',')\<close>: each run of white space becomes one comma.\<close>

function replace_spaces :: "string \<Rightarrow> string" where
  "replace_spaces [] = []"
| "replace_spaces (c # cs) =
     (if is_space c then CHR '','' # replace_spaces (dropWhile is_space cs)
      else c # replace_spaces cs)"
  by pat_completeness auto
termination
  by (relation "measure length") (auto simp: length_dropWhile_le less_Suc_eq_le)

text \<open>\<open>s.split(',')\<close>.\<close>

fun split_comma :: "string \<Rightarrow> string list" where
  "split_comma [] = [[]]"
| "split_comma (c # cs) =
     (case split_comma cs of
        [] \<Rightarrow> [[c]]
      | t # ts \<Rightarrow> if c = CHR '','' then [] # t # ts else (c # t) # ts)"

text \<open>The loop of \<open>enableNamespaces\<close> over the tokens, with the two lists it fills.\<close>

fun collect_patterns :: "string list \<Rightarrow> regex list \<Rightarrow> regex list \<Rightarrow> error + regex list \<times> regex list" where
  "collect_patterns [] includes excludes = Inr (includes, excludes)"
| "collect_patterns (t # ts) includes excludes =
     (let token = trim t in
      if token = [] then collect_patterns ts includes excludes
      else if hd token = CHR ''-'' then
        (case createWildcardRegex (tl token) of
           Inl e \<Rightarrow> Inl e
         | Inr r \<Rightarrow> collect_patterns ts includes (excludes @ [r]))
      else
        (case createWildcardRegex token of
           Inl e \<Rightarrow> Inl e
         | Inr r \<Rightarrow> collect_patterns ts (includes @ [r]) excludes))"

text \<open>The first branch of \<open>enableNamespaces\<close>: everything is allowed again.\<close>

definition allow_all :: "state \<Rightarrow> error + state" where
  "allow_all st =
     (case createWildcardRegex ''*'' of
        Inl e \<Rightarrow> Inl e
      | Inr star \<Rightarrow>
          Inr (st\<lparr>includePatterns := [star], excludePatterns := [],
                  config := (config st)\<lparr>namespaces := ''*''\<rparr>\<rparr>))"

definition enableNamespaces :: "jsval \<Rightarrow> state \<Rightarrow> error + state" where
  "enableNamespaces patternString st =
     (case patternString of
        JStr p \<Rightarrow>
          if trim p = [] then allow_all st
          else
            (case collect_patterns (filter (\<lambda>t. t \<noteq> []) (split_comma (replace_spaces p))) [] [] of
               Inl e \<Rightarrow> Inl e
             | Inr (includes, excludes) \<Rightarrow>
                 if includes = [] then
                   (case createWildcardRegex ''*'' of
                      Inl e \<Rightarrow> Inl e
                    | Inr star \<Rightarrow>
                        Inr (st\<lparr>includePatterns := [star], excludePatterns := excludes,
                                config := (config st)\<lparr>namespaces := p\<rparr>\<rparr>))
                 else
                   Inr (st\<lparr>includePatterns := includes, excludePatterns := excludes,
                           config := (config st)\<lparr>namespaces := p\<rparr>\<rparr>))
      | _ \<Rightarrow> allow_all st)"

text \<open>\<open>typeof namespace === 'string' && namespace.length ? namespace : 'global'\<close>.\<close>

definition ns_or_global :: "jsval \<Rightarrow> string" where
  "ns_or_global namespace = (case namespace of JStr s \<Rightarrow> (if s \<noteq> [] then s else ''global'') | _ \<Rightarrow> ''global'')"

text \<open>\<open>typeof namespace === 'string' ? namespace : 'global'\<close>.\<close>

definition ns_string :: "jsval \<Rightarrow> string" where
  "ns_string namespace = (case namespace of JStr s \<Rightarrow> s | _ \<Rightarrow> ''global'')"

text \<open>The two loops of \<open>isNamespaceEnabled\<close>.\<close>

fun any_excluded :: "regex list \<Rightarrow> string \<Rightarrow> bool" where
  "any_excluded [] ns = False"
| "any_excluded (re # res) ns = (if test re ns then True else any_excluded res ns)"

fun any_included :: "regex list \<Rightarrow> string \<Rightarrow> bool" where
  "any_included [] ns = False"
| "any_included (re # res) ns = (if test re ns then True else any_included res ns)"

definition isNamespaceEnabled :: "jsval \<Rightarrow> state \<Rightarrow> bool" where
  "isNamespaceEnabled namespace st =
     (let ns = ns_or_global namespace in
      if any_excluded (excludePatterns st) ns then False
      else any_included (includePatterns st) ns)"

text \<open>First matching rule of a rule table, in insertion order.\<close>

fun first_rule :: "(regex \<times> 'v) list \<Rightarrow> string \<Rightarrow> 'v option" where
  "first_rule [] ns = None"
| "first_rule (rule # rules) ns = (if test (fst rule) ns then Some (snd rule) else first_rule rules ns)"

definition getEffectiveLevelWeight :: "jsval \<Rightarrow> state \<Rightarrow> level_value" where
  "getEffectiveLevelWeight namespace st =
     (case first_rule (nsLevelRules st) (ns_string namespace) of
        Some v \<Rightarrow> v
      | None \<Rightarrow> Weight (levelWeight st))"

text \<open>\<open>shouldPassSampling\<close> draws from \<open>Math.random()\<close> only when a rule matches.\<close>

definition shouldPassSampling :: "jsval \<Rightarrow> state \<Rightarrow> world \<Rightarrow> bool \<times> world" where
  "shouldPassSampling namespace st w =
     (case first_rule (sampleRules st) (ns_string namespace) of
        Some v \<Rightarrow> (random w (draws w) < v, w\<lparr>draws := Suc (draws w)\<rparr>)
      | None \<Rightarrow> (True, w))"

section \<open>JSON text\<close>

text \<open>\<open>QuoteJSONString\<close>: the characters that \<open>JSON.stringify\<close> escapes.\<close>

definition hex_digit :: "nat \<Rightarrow> char" where
  "hex_digit n = (if n < 10 then char_of (48 + n) else char_of (87 + n))"

definition quote_char :: "char \<Rightarrow> string" where
  "quote_char c =
     (if c = CHR 0x22 then [CHR 0x5C, CHR 0x22]
      else if c = CHR 0x5C then [CHR 0x5C, CHR 0x5C]
      else if c = CHR 0x08 then [CHR 0x5C, CHR ''b'']
      else if c = CHR 0x0C then [CHR 0x5C, CHR ''f'']
      else if c = CHR 0x0A then [CHR 0x5C, CHR ''n'']
      else if c = CHR 0x0D then [CHR 0x5C, CHR ''r'']
      else if c = CHR 0x09 then [CHR 0x5C, CHR ''t'']
      else if (of_char c :: nat) < 32 then
        [CHR 0x5C, CHR ''u'', CHR ''0'', CHR ''0'', hex_digit (of_char c div 16), hex_digit (of_char c mod 16)]
      else [c])"

definition quote :: "string \<Rightarrow> string" where
  "quote s = CHR 0x22 # concat (map quote_char s) @ [CHR 0x22]"

text \<open>
  The text of an array or object from the texts of its parts: \<open>gap\<close> is the
  indentation unit (empty for the compact form), \<open>ind\<close> the current indentation.
\<close>

definition wrap :: "string \<Rightarrow> string \<Rightarrow> string \<Rightarrow> string \<Rightarrow> string list \<Rightarrow> string" where
  "wrap opening closing gap ind parts =
     (if parts = [] then opening @ closing
      else if gap = [] then opening @ join '','' parts @ closing
      else opening @ [CHR 0x0A] @ ind @ gap
           @ join ([CHR '','', CHR 0x0A] @ ind @ gap) parts
           @ [CHR 0x0A] @ ind @ closing)"

fun first_error :: "(error + 'a) list \<Rightarrow> error option" where
  "first_error [] = None"
| "first_error (Inl e # rs) = Some e"
| "first_error (Inr x # rs) = first_error rs"

text \<open>
  \<open>JSON.stringify(v, null, gap)\<close>: \<open>Inl\<close> when it throws, \<open>Inr None\<close> when it
  returns \<open>undefined\<close>. Inside an array an undefined part is written \<open>null\<close>, inside an
  object the property is left out; the properties are written in the order in which
  they are visited.
\<close>

fun stringify :: "string \<Rightarrow> string \<Rightarrow> jsval \<Rightarrow> error + string option" where
  "stringify gap ind JUndefined = Inr None"
| "stringify gap ind JNull = Inr (Some ''null'')"
| "stringify gap ind (JBool b) = Inr (Some (if b then ''true'' else ''false''))"
| "stringify gap ind (JNum n) = Inr (Some (show_int n))"
| "stringify gap ind (JDec m e) = Inr (Some (show_dec m e))"
| "stringify gap ind (JStr s) = Inr (Some (quote s))"
| "stringify gap ind (JBigInt n) = Inl TypeError"
| "stringify gap ind (JSymbol n) = Inr None"
| "stringify gap ind (JFunc f) = Inr None"
| "stringify gap ind (JArr xs) =
     (let rs = map (stringify gap (ind @ gap)) xs in
      case first_error rs of
        Some e \<Rightarrow> Inl e
      | None \<Rightarrow>
          Inr (Some (wrap ''['' '']'' gap ind
            (map (\<lambda>r. case r of Inr (Some t) \<Rightarrow> t | _ \<Rightarrow> ''null'') rs))))"
| "stringify gap ind (JObj kvs) =
     (let rs = map (\<lambda>kv. (fst kv, stringify gap (ind @ gap) (snd kv))) kvs in
      case first_error (map snd rs) of
        Some e \<Rightarrow> Inl e
      | None \<Rightarrow>
          Inr (Some (wrap ''{'' ''}'' gap ind
            (concat (map (\<lambda>kr. case snd kr of
                                  Inr (Some t) \<Rightarrow> [quote (fst kr) @ '':'' @ (if gap = [] then [] else '' '') @ t]
                                | _ \<Rightarrow> []) (property_order rs))))))"
| "stringify gap ind (JExotic s j) = (case j of None \<Rightarrow> Inl TypeError | Some t \<Rightarrow> Inr (Some t))"

definition JSON_stringify :: "jsval \<Rightarrow> error + string option" where
  "JSON_stringify v = stringify [] [] v"

definition JSON_stringify_indent2 :: "jsval \<Rightarrow> error + string option" where
  "JSON_stringify_indent2 v = stringify ''  '' [] v"

text \<open>
  \<open>JSON.parse\<close>. The \<open>\u\<close> escapes are the byte characters. The first argument of
  \<open>parse_value\<close> bounds the nesting depth, the second argument of the two loops
  bounds the number of parts; \<open>JSON_parse\<close> starts them at the length of the text.
\<close>

definition is_json_ws :: "char \<Rightarrow> bool" where
  "is_json_ws c = (c = CHR 0x20 \<or> c = CHR 0x09 \<or> c = CHR 0x0A \<or> c = CHR 0x0D)"

definition skip_ws :: "string \<Rightarrow> string" where
  "skip_ws s = dropWhile is_json_ws s"

definition hex_value :: "char \<Rightarrow> nat option" where
  "hex_value c =
     (let n = (of_char c :: nat) in
      if 48 \<le> n \<and> n \<le> 57 then Some (n - 48)
      else if 97 \<le> n \<and> n \<le> 102 then Some (n - 87)
      else if 65 \<le> n \<and> n \<le> 70 then Some (n - 55)
      else None)"

definition unescape :: "char \<Rightarrow> char option" where
  "unescape d =
     (if d = CHR 0x22 then Some (CHR 0x22)
      else if d = CHR 0x5C then Some (CHR 0x5C)
      else if d = CHR ''/'' then Some (CHR ''/'')
      else if d = CHR ''b'' then Some (CHR 0x08)
      else if d = CHR ''f'' then Some (CHR 0x0C)
      else if d = CHR ''n'' then Some (CHR 0x0A)
      else if d = CHR ''r'' then Some (CHR 0x0D)
      else if d = CHR ''t'' then Some (CHR 0x09)
      else None)"

definition cons_result :: "char \<Rightarrow> (string \<times> string) option \<Rightarrow> (string \<times> string) option" where
  "cons_result c r = (case r of None \<Rightarrow> None | Some (t, rest) \<Rightarrow> Some (c # t, rest))"

text \<open>The characters of a string literal after its opening quote, and the rest of the text.\<close>

fun parse_string :: "string \<Rightarrow> (string \<times> string) option" where
  "parse_string [] = None"
| "parse_string (c # cs) =
     (if c = CHR 0x22 then Some ([], cs)
      else if c = CHR 0x5C then
        (case cs of
           [] \<Rightarrow> None
         | d # ds \<Rightarrow>
             if d = CHR ''u'' then
               (case ds of
                  h1 # h2 # h3 # h4 # rest \<Rightarrow>
                    (case (hex_value h1, hex_value h2, hex_value h3, hex_value h4) of
                       (Some a, Some b, Some c, Some d) \<Rightarrow>
                         if a = 0 \<and> b = 0 then cons_result (char_of (c * 16 + d)) (parse_string rest)
                         else None
                     | _ \<Rightarrow> None)
                | _ \<Rightarrow> None)
             else
               (case unescape d of
                  None \<Rightarrow> None
                | Some x \<Rightarrow> cons_result x (parse_string ds)))
      else if (of_char c :: nat) < 32 then None
      else cons_result c (parse_string cs))"

text \<open>
  A number literal: the digits before and after the point and the exponent give a
  mantissa and a power of ten; the value is an integer or a \<open>JDec\<close>.
\<close>

definition make_number :: "bool \<Rightarrow> nat \<Rightarrow> int \<Rightarrow> jsval" where
  "make_number negative mantissa e =
     (if mantissa = 0 then JNum 0
      else (case strip_zeros mantissa of
              (m, z) \<Rightarrow>
                if 0 \<le> e + int z
                then JNum ((if negative then - 1 else 1) * int m * 10 ^ nat (e + int z))
                else JDec ((if negative then - 1 else 1) * int m) (e + int z)))"

definition parse_exponent :: "string \<Rightarrow> (int \<times> string) option" where
  "parse_exponent s =
     (case s of
        [] \<Rightarrow> Some (0, s)
      | c # cs \<Rightarrow>
          if c = CHR ''e'' \<or> c = CHR ''E'' then
            (let negative = (cs \<noteq> [] \<and> hd cs = CHR ''-'');
                 ds = (if cs \<noteq> [] \<and> (hd cs = CHR ''-'' \<or> hd cs = CHR ''+'') then tl cs else cs)
             in if takeWhile is_digit ds = [] then None
                else Some ((if negative then - 1 else 1) * digits_value (takeWhile is_digit ds),
                           dropWhile is_digit ds))
          else Some (0, s))"

definition parse_fraction :: "string \<Rightarrow> (string \<times> string) option" where
  "parse_fraction s =
     (case s of
        [] \<Rightarrow> Some ([], s)
      | c # cs \<Rightarrow>
          if c = CHR ''.'' then
            (if takeWhile is_digit cs = [] then None
             else Some (takeWhile is_digit cs, dropWhile is_digit cs))
          else Some ([], s))"

definition parse_unsigned :: "bool \<Rightarrow> string \<Rightarrow> (jsval \<times> string) option" where
  "parse_unsigned negative s =
     (let ds = takeWhile is_digit s in
      if ds = [] then None
      else if hd ds = CHR ''0'' \<and> length ds > 1 then None
      else
        (case parse_fraction (dropWhile is_digit s) of
           None \<Rightarrow> None
         | Some (fs, rest) \<Rightarrow>
             (case parse_exponent rest of
                None \<Rightarrow> None
              | Some (ex, rest') \<Rightarrow>
                  Some (make_number negative (nat (digits_value (ds @ fs))) (ex - int (length fs)),
                        rest'))))"

definition parse_number :: "string \<Rightarrow> (jsval \<times> string) option" where
  "parse_number s =
     (case s of
        [] \<Rightarrow> None
      | c # cs \<Rightarrow> if c = CHR ''-'' then parse_unsigned True cs else parse_unsigned False s)"

definition starts_with :: "string \<Rightarrow> string \<Rightarrow> bool" where
  "starts_with p s = (take (length p) s = p)"

text \<open>
  A property given twice keeps its first position and its last value, as the
  properties of the object that \<open>JSON.parse\<close> builds do.
\<close>

definition add_member :: "string \<Rightarrow> jsval \<Rightarrow> (string \<times> jsval) list \<Rightarrow> (string \<times> jsval) list" where
  "add_member k v kvs =
     (case map_of kvs k of
        None \<Rightarrow> (k, v) # kvs
      | Some v' \<Rightarrow> (k, v') # filter (\<lambda>p. fst p \<noteq> k) kvs)"

fun parse_value :: "nat \<Rightarrow> string \<Rightarrow> (jsval \<times> string) option"
  and parse_elements :: "nat \<Rightarrow> nat \<Rightarrow> string \<Rightarrow> (jsval list \<times> string) option"
  and parse_members :: "nat \<Rightarrow> nat \<Rightarrow> string \<Rightarrow> ((string \<times> jsval) list \<times> string) option"
where
  "parse_value 0 s = None"
| "parse_value (Suc d) s =
     (case skip_ws s of
        [] \<Rightarrow> None
      | c # cs \<Rightarrow>
          if c = CHR 0x22 then
            (case parse_string cs of None \<Rightarrow> None | Some (t, rest) \<Rightarrow> Some (JStr t, rest))
          else if c = CHR ''['' then
            (case skip_ws cs of
               [] \<Rightarrow> None
             | x # xs \<Rightarrow>
                 if x = CHR '']'' then Some (JArr [], xs)
                 else (case parse_elements d (length cs) cs of
                         None \<Rightarrow> None
                       | Some (vs, rest) \<Rightarrow> Some (JArr vs, rest)))
          else if c = CHR ''{'' then
            (case skip_ws cs of
               [] \<Rightarrow> None
             | x # xs \<Rightarrow>
                 if x = CHR ''}'' then Some (JObj [], xs)
                 else (case parse_members d (length cs) cs of
                         None \<Rightarrow> None
                       | Some (kvs, rest) \<Rightarrow> Some (JObj kvs, rest)))
          else if starts_with ''true'' (c # cs) then Some (JBool True, drop 4 (c # cs))
          else if starts_with ''false'' (c # cs) then Some (JBool False, drop 5 (c # cs))
          else if starts_with ''null'' (c # cs) then Some (JNull, drop 4 (c # cs))
          else parse_number (c # cs))"
| "parse_elements d 0 s = None"
| "parse_elements d (Suc k) s =
     (case parse_value d s of
        None \<Rightarrow> None
      | Some (v, rest) \<Rightarrow>
          (case skip_ws rest of
             [] \<Rightarrow> None
           | c # cs \<Rightarrow>
               if c = CHR '']'' then Some ([v], cs)
               else if c = CHR '','' then
                 (case parse_elements d k cs of
                    None \<Rightarrow> None
                  | Some (vs, rest') \<Rightarrow> Some (v # vs, rest'))
               else None))"
| "parse_members d 0 s = None"
| "parse_members d (Suc k) s =
     (case skip_ws s of
        [] \<Rightarrow> None
      | q # qs \<Rightarrow>
          if q \<noteq> CHR 0x22 then None
          else
            (case parse_string qs of
               None \<Rightarrow> None
             | Some (key, rest) \<Rightarrow>
                 (case skip_ws rest of
                    [] \<Rightarrow> None
                  | c # cs \<Rightarrow>
                      if c \<noteq> CHR '':'' then None
                      else
                        (case parse_value d cs of
                           None \<Rightarrow> None
                         | Some (v, rest') \<Rightarrow>
                             (case skip_ws rest' of
                                [] \<Rightarrow> None
                              | c' # cs' \<Rightarrow>
                                  if c' = CHR ''}'' then Some ([(key, v)], cs')
                                  else if c' = CHR '','' then
                                    (case parse_members d k cs' of
                                       None \<Rightarrow> None
                                     | Some (kvs, rest'') \<Rightarrow> Some (add_member key v kvs, rest''))
                                  else None)))))"

definition JSON_parse :: "string \<Rightarrow> error + jsval" where
  "JSON_parse s =
     (case parse_value (Suc (length s)) s of
        None \<Rightarrow> Inl SyntaxError
      | Some (v, rest) \<Rightarrow> if skip_ws rest = [] then Inr v else Inl SyntaxError)"

section \<open>Building and delivering a record\<close>

definition addToBuffer :: "buffer_entry \<Rightarrow> state \<Rightarrow> state" where
  "addToBuffer entry st =
     (let pushed = buffer st @ [entry];
          overflow = int (length pushed) - bufferSize (config st)
      in if overflow > 0 then st\<lparr>buffer := drop (nat overflow) pushed\<rparr>
         else st\<lparr>buffer := pushed\<rparr>)"

definition stringifyForPreview :: "jsval \<Rightarrow> string" where
  "stringifyForPreview v =
     (case v of
        JNull \<Rightarrow> ''null''
      | JUndefined \<Rightarrow> ''undefined''
      | JStr s \<Rightarrow> s
      | JNum n \<Rightarrow> show_int n
      | JDec m e \<Rightarrow> show_dec m e
      | JBool b \<Rightarrow> (if b then ''true'' else ''false'')
      | JBigInt n \<Rightarrow> show_bigint n
      | JFunc f \<Rightarrow> ''[function]''
      | JSymbol n \<Rightarrow> ''[symbol]''
      | _ \<Rightarrow> (case JSON_stringify v of
                Inl e \<Rightarrow> ''[object]''
              | Inr None \<Rightarrow> []
              | Inr (Some t) \<Rightarrow> t))"

text \<open>
  The loop of \<open>buildPreview\<close>: it stops once the joined text is longer than 300.
  \<open>stringifyForPreview\<close> catches what \<open>JSON.stringify\<close> throws, so nothing in the
  loop throws and the handler of \<open>buildPreview\<close> that returns \<open>[unavailable]\<close> is
  never entered.
\<close>

fun preview_loop :: "jsval list \<Rightarrow> string list \<Rightarrow> string list" where
  "preview_loop [] out = out"
| "preview_loop (a # as) out =
     (let out' = out @ [stringifyForPreview a] in
      if length (join '' '' out') > 300 then out' else preview_loop as out')"

definition buildPreview :: "jsval list \<Rightarrow> string" where
  "buildPreview args = join '' '' (preview_loop args [])"

definition applyRedaction :: "jsval list \<Rightarrow> string \<Rightarrow> string \<Rightarrow> state \<Rightarrow> jsval list" where
  "applyRedaction arr levelName namespace st =
     (case redactorFn st of
        None \<Rightarrow> arr
      | Some f \<Rightarrow>
          (case f arr levelName namespace of
             Inl e \<Rightarrow> arr
           | Inr out \<Rightarrow> (case out of JArr xs \<Rightarrow> xs | _ \<Rightarrow> arr)))"

definition maybeCaptureStack :: "string \<Rightarrow> state \<Rightarrow> world \<Rightarrow> string" where
  "maybeCaptureStack levelName st w =
     (let cfg = captureStack (config st) in
      if \<not> truthy cfg then []
      else if cfg = JStr ''always'' \<or> cfg = JBool True
              \<or> (cfg = JStr ''error'' \<and> (levelName = ''error'' \<or> levelName = ''warn''))
      then stack_text w
      else [])"

definition addTransport :: "jsval \<Rightarrow> state \<Rightarrow> state" where
  "addTransport fn st =
     (case fn of JFunc f \<Rightarrow> st\<lparr>transports := transports st @ [f]\<rparr> | _ \<Rightarrow> st)"

text \<open>\<open>indexOf\<close> and \<open>splice(i, 1)\<close>: the first occurrence is taken out.\<close>

fun remove_first :: "nat \<Rightarrow> nat list \<Rightarrow> nat list" where
  "remove_first f [] = []"
| "remove_first f (g # gs) = (if g = f then gs else g # remove_first f gs)"

definition removeTransport :: "jsval \<Rightarrow> state \<Rightarrow> state" where
  "removeTransport fn st =
     (case fn of JFunc f \<Rightarrow> st\<lparr>transports := remove_first f (transports st)\<rparr> | _ \<Rightarrow> st)"

fun run_transport_ops :: "transport_op list \<Rightarrow> state \<Rightarrow> state" where
  "run_transport_ops [] st = st"
| "run_transport_ops (Add fn # ops) st = run_transport_ops ops (addTransport fn st)"
| "run_transport_ops (Remove fn # ops) st = run_transport_ops ops (removeTransport fn st)"

text \<open>
  One transport call, \<open>state.transports[i](entry)\<close> inside its \<open>try\<close>: the call is
  logged with the entry as it was passed, the registrations and removals that the
  transport makes are done, the entry object is as the transport leaves it, and the
  last component says whether the transport threw.
\<close>

definition call_transport :: "nat \<Rightarrow> log_record \<Rightarrow> world \<times> state \<Rightarrow> (world \<times> state) \<times> log_record \<times> bool" where
  "call_transport f entry ws =
     (let r = sink_run (fst ws) (delivered (fst ws)) f entry in
      (((fst ws)\<lparr>delivered := delivered (fst ws) @ [(f, entry)]\<rparr>,
        run_transport_ops (sink_ops r) (snd ws)),
       sink_entry r, sink_threw r))"

text \<open>
  The loop of \<open>notifyTransports\<close>, from the index \<open>i\<close>: it reads the length and the
  element of the live list at every round, and goes on whether the transport threw or
  not. With transports that keep registering transports it never ends: the result is
  \<open>None\<close>.
\<close>

partial_function (option) notify_from :: "nat \<Rightarrow> log_record \<Rightarrow> world \<times> state \<Rightarrow> (world \<times> log_record \<times> state) option" where
  "notify_from i entry ws =
     (if i < length (transports (snd ws)) then
        (case call_transport (transports (snd ws) ! i) entry ws of
           (ws', entry', threw) \<Rightarrow>
             if threw then notify_from (Suc i) entry' ws' else notify_from (Suc i) entry' ws')
      else Some (fst ws, entry, snd ws))"

declare notify_from.simps [code]

definition notifyTransports :: "log_record \<Rightarrow> state \<Rightarrow> world \<Rightarrow> (world \<times> log_record \<times> state) option" where
  "notifyTransports entry st w =
     (if transports st = [] then Some (w, entry, st) else notify_from 0 entry (w, st))"

text \<open>The call of the native console method, inside its \<open>try\<close>.\<close>

definition call_native :: "string \<Rightarrow> jsval list \<Rightarrow> world \<Rightarrow> world \<times> bool" where
  "call_native levelName args w = (w\<lparr>printed := printed w @ [(levelName, args)]\<rparr>, native_throws w)"

text \<open>
  \<open>emit\<close>, outside a browser: the level check, then the sampling check, then the
  namespace check; then redaction, the native console, the record, the transports and
  the history. The entry of the history is read from the record after the transports
  have run. The result is \<open>None\<close> when the call does not return.
\<close>

definition emit :: "string \<Rightarrow> string \<Rightarrow> jsval list \<Rightarrow> world \<times> state \<Rightarrow> (world \<times> state) option" where
  "emit levelName0 namespace argsLike ws =
     (case ws of (w, st) \<Rightarrow>
      (case (case LEVELS levelName0 of None \<Rightarrow> (''log'', 30) | Some lw \<Rightarrow> (levelName0, lw)) of
         (levelName, weight) \<Rightarrow>
           if below weight (getEffectiveLevelWeight (JStr namespace) st) then Some (w, st)
           else
             (case shouldPassSampling (JStr namespace) st w of
                (pass, w1) \<Rightarrow>
                  if \<not> pass then Some (w1, st)
                  else if \<not> isNamespaceEnabled (JStr namespace) st then Some (w1, st)
                  else
                    (let sanitized = applyRedaction argsLike levelName namespace st;
                         w2 = (if \<not> paused st \<and> printToNative (config st)
                               then fst (call_native levelName sanitized w1) else w1);
                         stack = maybeCaptureStack levelName st w2;
                         entry = \<lparr>rec_time = JStr (now w2), rec_level = JStr levelName,
                                  rec_namespace = JStr namespace,
                                  rec_preview = JStr (buildPreview sanitized), rec_args = sanitized,
                                  rec_stack = (if stack \<noteq> [] then Some stack else None)\<rparr>
                     in case notifyTransports entry st w2 of
                          None \<Rightarrow> None
                        | Some (w3, entry', st') \<Rightarrow>
                            Some (w3, addToBuffer \<lparr>entry_time = rec_time entry', entry_level = rec_level entry',
                                                   entry_namespace = rec_namespace entry',
                                                   entry_preview = rec_preview entry'\<rparr> st')))))"

section \<open>Loggers\<close>

text \<open>
  The own properties of the objects \<open>counters\<close> and \<open>timers\<close> of a logger. Both are
  plain objects, so a read of a name that is not an own property finds the member
  inherited from \<open>Object.prototype\<close>, and an assignment to \<open>__proto__\<close> of a value that
  is not an object creates no property.
\<close>

datatype counter = Count int | Text string

record logger =
  logger_ns :: string
  counters :: "string \<Rightarrow> counter option"
  timers :: "string \<Rightarrow> int option"

definition createLogger :: "jsval \<Rightarrow> logger" where
  "createLogger namespace = \<lparr>logger_ns = ns_or_global namespace, counters = Map.empty, timers = Map.empty\<rparr>"

text \<open>
  The result of a method of a logger: \<open>None\<close> when the call does not return, \<open>Inl\<close> when
  it throws. \<open>returned lg r\<close> is the result of a method that ends with the call of
  \<open>emit\<close> whose result is \<open>r\<close>.
\<close>

type_synonym outcome = "(error + logger \<times> world \<times> state) option"

definition returned :: "logger \<Rightarrow> (world \<times> state) option \<Rightarrow> outcome" where
  "returned lg r = (case r of None \<Rightarrow> None | Some (w, st) \<Rightarrow> Some (Inr (lg, w, st)))"


definition logger_method :: "string \<Rightarrow> jsval list \<Rightarrow> logger \<times> world \<times> state \<Rightarrow> outcome" where
  "logger_method name arguments lws =
     (case lws of (lg, w, st) \<Rightarrow> returned lg (emit name (logger_ns lg) arguments (w, st)))"

definition once :: "jsval list \<Rightarrow> logger \<times> world \<times> state \<Rightarrow> outcome" where
  "once arguments lws =
     (case lws of (lg, w, st) \<Rightarrow>
        (case js_String (case arguments of [] \<Rightarrow> JUndefined | key # rest \<Rightarrow> key) of
           Inl e \<Rightarrow> Some (Inl e)
         | Inr text \<Rightarrow>
             (let k = logger_ns lg @ ''|'' @ text in
              if k \<in> onceKeys st then Some (Inr (lg, w, st))
              else
                returned lg (emit ''info'' (logger_ns lg) (drop 1 arguments)
                               (w, st\<lparr>onceKeys := insert k (onceKeys st)\<rparr>)))))"

definition resetOnce :: "state \<Rightarrow> state" where
  "resetOnce st = st\<lparr>onceKeys := {}\<rparr>"

text \<open>\<open>String(label || 'default')\<close>.\<close>

definition label_key :: "jsval \<Rightarrow> error + string" where
  "label_key label = (if truthy label then js_String label else Inr ''default'')"

text \<open>
  \<open>obj[k] = v\<close> on a plain object, for a value that is not an object: nothing happens
  when \<open>k\<close> is \<open>__proto__\<close>.
\<close>

definition assign :: "(string \<Rightarrow> 'a option) \<Rightarrow> string \<Rightarrow> 'a \<Rightarrow> (string \<Rightarrow> 'a option)" where
  "assign m k v = (if k = ''__proto__'' then m else m(k \<mapsto> v))"

text \<open>
  \<open>(counters[k] || 0) + 1\<close>: a number is incremented; to a string, and to the text of
  an inherited member, \<open>1\<close> is appended.
\<close>

definition member_text :: "world \<Rightarrow> string \<Rightarrow> string" where
  "member_text w k = (if k = ''__proto__'' then ''[object Object]'' else native_text w k)"

definition next_count :: "world \<Rightarrow> logger \<Rightarrow> string \<Rightarrow> counter" where
  "next_count w lg k =
     (case counters lg k of
        Some (Count n) \<Rightarrow> Count (n + 1)
      | Some (Text s) \<Rightarrow> if s = [] then Count 1 else Text (s @ ''1'')
      | None \<Rightarrow> if k \<in> set inherited_members then Text (member_text w k @ ''1'') else Count 1)"

text \<open>\<open>'' + counters[k]\<close>, read after the assignment.\<close>

definition counter_text :: "world \<Rightarrow> logger \<Rightarrow> string \<Rightarrow> string" where
  "counter_text w lg k =
     (case counters lg k of
        Some (Count n) \<Rightarrow> show_int n
      | Some (Text s) \<Rightarrow> s
      | None \<Rightarrow> member_text w k)"

definition count :: "jsval \<Rightarrow> logger \<times> world \<times> state \<Rightarrow> outcome" where
  "count label lws =
     (case lws of (lg, w, st) \<Rightarrow>
        (case label_key label of
           Inl e \<Rightarrow> Some (Inl e)
         | Inr k \<Rightarrow>
             (let lg' = lg\<lparr>counters := assign (counters lg) k (next_count w lg k)\<rparr>
              in returned lg' (emit ''info'' (logger_ns lg)
                    [JStr (''count '' @ k @ '': '' @ counter_text w lg' k)] (w, st)))))"

definition countReset :: "jsval \<Rightarrow> logger \<times> world \<times> state \<Rightarrow> outcome" where
  "countReset label lws =
     (case lws of (lg, w, st) \<Rightarrow>
        (case label_key label of
           Inl e \<Rightarrow> Some (Inl e)
         | Inr k \<Rightarrow>
             (let lg' = lg\<lparr>counters := assign (counters lg) k (Count 0)\<rparr>
              in returned lg' (emit ''info'' (logger_ns lg)
                    [JStr (''countReset '' @ k @ '': 0'')] (w, st)))))"

definition time :: "jsval \<Rightarrow> logger \<times> world \<times> state \<Rightarrow> outcome" where
  "time label lws =
     (case lws of (lg, w, st) \<Rightarrow>
        (case label_key label of
           Inl e \<Rightarrow> Some (Inl e)
         | Inr key \<Rightarrow> Some (Inr (lg\<lparr>timers := assign (timers lg) key (nowMs w)\<rparr>, w, st))))"

text \<open>
  \<open>timeEnd\<close>. The clock counts whole milliseconds, so \<open>toFixed(1)\<close> adds \<open>.0\<close>. Without
  an own property the start is \<open>undefined\<close> and the call returns, or it is an inherited
  member and the duration is \<open>NaN\<close>.
\<close>

definition timeEnd :: "jsval \<Rightarrow> logger \<times> world \<times> state \<Rightarrow> outcome" where
  "timeEnd label lws =
     (case lws of (lg, w, st) \<Rightarrow>
        (case label_key label of
           Inl e \<Rightarrow> Some (Inl e)
         | Inr key \<Rightarrow>
             (case timers lg key of
                None \<Rightarrow>
                  if key \<in> set inherited_members
                  then returned lg (emit ''info'' (logger_ns lg)
                         [JStr (''Timer '' @ key @ '': NaNms'')] (w, st))
                  else Some (Inr (lg, w, st))
              | Some start \<Rightarrow>
                  (let dur = nowMs w - start;
                       lg' = lg\<lparr>timers := (timers lg)(key := None)\<rparr>
                   in returned lg' (emit ''info'' (logger_ns lg)
                         [JStr (''Timer '' @ key @ '': '' @ show_int dur @ ''.0ms'')] (w, st))))))"

section \<open>Per-namespace levels\<close>





section \<open>Export and import of the history\<close>

text \<open>An entry of the history as the object that \<open>JSON.stringify\<close> sees.\<close>

definition entry_value :: "buffer_entry \<Rightarrow> jsval" where
  "entry_value e = JObj [(''time'', entry_time e), (''level'', entry_level e),
                         (''namespace'', entry_namespace e), (''preview'', entry_preview e)]"

text \<open>
  \<open>exportBuffer\<close>: the \<open>catch\<close> returns \<open>[]\<close>. \<open>JSON.stringify\<close> of an array is
  never \<open>undefined\<close>, so the middle case is not reached.
\<close>

definition exportBuffer :: "state \<Rightarrow> string" where
  "exportBuffer st =
     (case JSON_stringify_indent2 (JArr (map entry_value (buffer st))) of
        Inl e \<Rightarrow> ''[]''
      | Inr None \<Rightarrow> ''undefined''
      | Inr (Some t) \<Rightarrow> t)"

text \<open>\<open>String(e.k || d)\<close> for one field of an imported element.\<close>

definition field_or :: "jsval \<Rightarrow> string \<Rightarrow> string \<Rightarrow> error + string" where
  "field_or e k d =
     (case js_get e k of
        Inl err \<Rightarrow> Inl err
      | Inr v \<Rightarrow> if truthy v then js_String v else Inr d)"

definition import_entry :: "world \<Rightarrow> jsval \<Rightarrow> error + buffer_entry" where
  "import_entry w e =
     (case field_or e ''time'' (now w) of Inl err \<Rightarrow> Inl err | Inr t \<Rightarrow>
      (case field_or e ''level'' ''log'' of Inl err \<Rightarrow> Inl err | Inr l \<Rightarrow>
       (case field_or e ''namespace'' ''global'' of Inl err \<Rightarrow> Inl err | Inr n \<Rightarrow>
        (case field_or e ''preview'' [] of Inl err \<Rightarrow> Inl err | Inr p \<Rightarrow>
           Inr \<lparr>entry_time = JStr t, entry_level = JStr l, entry_namespace = JStr n,
                entry_preview = JStr p\<rparr>))))"

text \<open>\<open>arr.map(...)\<close>: the first element that throws ends the call.\<close>

fun import_entries :: "world \<Rightarrow> jsval list \<Rightarrow> error + buffer_entry list" where
  "import_entries w [] = Inr []"
| "import_entries w (e # es) =
     (case import_entry w e of
        Inl err \<Rightarrow> Inl err
      | Inr b \<Rightarrow> (case import_entries w es of Inl err \<Rightarrow> Inl err | Inr bs \<Rightarrow> Inr (b # bs)))"

text \<open>\<open>options && options.append !== false\<close>, as the condition \<open>!append\<close> reads it.\<close>

definition append_mode :: "jsval \<Rightarrow> error + bool" where
  "append_mode options =
     (if \<not> truthy options then Inr False
      else (case js_get options ''append'' of
              Inl e \<Rightarrow> Inl e
            | Inr v \<Rightarrow> Inr (v \<noteq> JBool False)))"

text \<open>The array to import: the argument itself, or \<open>JSON.parse(String(jsonOrArray))\<close>.\<close>

definition import_source :: "jsval \<Rightarrow> error + jsval" where
  "import_source jsonOrArray =
     (if isArray jsonOrArray then Inr jsonOrArray
      else (case js_String jsonOrArray of
              Inl e \<Rightarrow> Inl e
            | Inr text \<Rightarrow> JSON_parse text))"

definition importBuffer :: "jsval \<Rightarrow> jsval \<Rightarrow> world \<Rightarrow> state \<Rightarrow> error + bool \<times> state" where
  "importBuffer jsonOrArray options w st =
     (case append_mode options of
        Inl e \<Rightarrow> Inl e
      | Inr append_flag \<Rightarrow>
          (case import_source jsonOrArray of
             Inl e \<Rightarrow> Inr (False, st)
           | Inr arr \<Rightarrow>
               (case arr of
                  JArr es \<Rightarrow>
                    (case import_entries w es of
                       Inl e \<Rightarrow> Inl e
                     | Inr trimmed \<Rightarrow>
                         (let pushed = (if append_flag then buffer st else []) @ trimmed;
                              overflow = int (length pushed) - bufferSize (config st)
                          in Inr (True, st\<lparr>buffer := (if overflow > 0 then drop (nat overflow) pushed
                                                      else pushed)\<rparr>)))
                | _ \<Rightarrow> Inr (False, st))))"

text \<open>The state that the script builds before any configuration is applied.\<close>

definition initial_state :: "regex \<Rightarrow> state" where
  "initial_state star =
     \<lparr>config = \<lparr>level = ''debug'', namespaces = ''*'', bufferSize = 500, printToNative = True,
                 captureStack = JBool False\<rparr>,
      levelWeight = 20, includePatterns = [star], excludePatterns = [], buffer = [],
      transports = [], paused = False, onceKeys = {}, nsLevelRules = [], sampleRules = [],
      redactorFn = None\<rparr>"

section \<open>Configuration overrides\<close>

text \<open>\<open>n | 0\<close>: the number as a signed 32-bit integer.\<close>
definition to_int32 :: "int \<Rightarrow> int" where
  "to_int32 n = (n + 2147483648) mod 4294967296 - 2147483648"

text \<open>
  The \<open>bufferSize\<close> branch of \<open>applyOverrides\<close>, which \<open>updateConfig\<close> runs: the history
  is not trimmed when the capacity changes.
\<close>
definition applyOverrides_bufferSize :: "jsval \<Rightarrow> state \<Rightarrow> state" where
  "applyOverrides_bufferSize v st =
     (case v of
        JNum n \<Rightarrow> if n > 0 then st\<lparr>config := (config st)\<lparr>bufferSize := to_int32 n\<rparr>\<rparr> else st
      | JDec m e \<Rightarrow>
          if m > 0 then st\<lparr>config := (config st)\<lparr>bufferSize := to_int32 (m div 10 ^ nat (- e))\<rparr>\<rparr>
          else st
      | _ \<Rightarrow> st)"

section \<open>Wildcard patterns, said on the token\<close>

text \<open>The atoms that a token compiles to.\<close>

definition token_atoms :: "string \<Rightarrow> regex" where
  "token_atoms token = map (\<lambda>c. if c = CHR ''*'' then RDotStar else RLit c) token"

text \<open>
  What the compiled pattern of a token accepts: \<open>*\<close> stands for a run of characters
  that are not line terminators, every other character for itself.
\<close>

fun wildcard :: "string \<Rightarrow> string \<Rightarrow> bool" where
  "wildcard [] s = (s = [])"
| "wildcard (c # cs) [] = (c = CHR ''*'' \<and> wildcard cs [])"
| "wildcard (c # cs) (x # xs) =
     (if c = CHR ''*'' then wildcard cs (x # xs) \<or> (\<not> line_terminator x \<and> wildcard (c # cs) xs)
      else x = c \<and> wildcard cs xs)"

text \<open>
  The pattern language in the words of the specification: \<open>*\<close> matches any run of zero
  or more characters, every other character is literal, the whole string must match.
\<close>

fun spec_wildcard :: "string \<Rightarrow> string \<Rightarrow> bool" where
  "spec_wildcard [] s = (s = [])"
| "spec_wildcard (c # cs) [] = (c = CHR ''*'' \<and> spec_wildcard cs [])"
| "spec_wildcard (c # cs) (x # xs) =
     (if c = CHR ''*'' then spec_wildcard cs (x # xs) \<or> spec_wildcard (c # cs) xs
      else x = c \<and> spec_wildcard cs xs)"

section \<open>Sequences of operations on the history\<close>

text \<open>
  A log call, a direct append (as \<open>console.table\<close> does) and an import. An import that
  throws leaves the state as it was. A sequence has no result when one of its calls
  does not return.
\<close>

datatype buffer_op =
    Log string string "jsval list"
  | Append buffer_entry
  | Import jsval jsval

fun run_op :: "buffer_op \<Rightarrow> world \<times> state \<Rightarrow> (world \<times> state) option" where
  "run_op (Log levelName namespace args) ws = emit levelName namespace args ws"
| "run_op (Append e) ws = Some (fst ws, addToBuffer e (snd ws))"
| "run_op (Import d opts) ws =
     (case importBuffer d opts (fst ws) (snd ws) of
        Inl e \<Rightarrow> Some ws
      | Inr (ok, st') \<Rightarrow> Some (fst ws, st'))"

fun run_ops :: "buffer_op list \<Rightarrow> world \<times> state \<Rightarrow> (world \<times> state) option" where
  "run_ops [] ws = Some ws"
| "run_ops (x # xs) ws = (case run_op x ws of None \<Rightarrow> None | Some ws' \<Rightarrow> run_ops xs ws')"


section \<open>Sequences of registrations\<close>


text \<open>
  The transports of a world register and remove no transport while they are called;
  they leave the entry object as they got it.
\<close>

definition transports_fixed :: "world \<Rightarrow> bool" where
  "transports_fixed w = (\<forall>h f e. sink_ops (sink_run w h f e) = [])"

definition entry_kept :: "world \<Rightarrow> bool" where
  "entry_kept w = (\<forall>h f e. sink_entry (sink_run w h f e) = e)"

text \<open>
  The calls that a notification makes when the list of transports stays as it is: each
  transport of the list in turn, with the entry as the transports before it left it.
\<close>

fun notify_all :: "nat list \<Rightarrow> log_record \<Rightarrow> world \<Rightarrow> world \<times> log_record" where
  "notify_all [] entry w = (w, entry)"
| "notify_all (f # fs) entry w =
     notify_all fs (sink_entry (sink_run w (delivered w) f entry))
                (w\<lparr>delivered := delivered w @ [(f, entry)]\<rparr>)"

section \<open>Notions used in the statements\<close>

text \<open>\<open>splice(0, overflow)\<close> after a push, as \<open>importBuffer\<close> and \<open>addToBuffer\<close> do it.\<close>
definition trim_front :: "int \<Rightarrow> 'a list \<Rightarrow> 'a list" where
  "trim_front cap xs = (if int (length xs) - cap > 0 then drop (nat (int (length xs) - cap)) xs else xs)"

text \<open>The weight that \<open>emit\<close> compares: an unknown level name counts as \<open>log\<close>.\<close>
definition call_weight :: "string \<Rightarrow> int" where
  "call_weight levelName = (case LEVELS levelName of None \<Rightarrow> 30 | Some w \<Rightarrow> w)"

definition level_passes :: "string \<Rightarrow> string \<Rightarrow> state \<Rightarrow> bool" where
  "level_passes levelName namespace st =
     (\<not> below (call_weight levelName) (getEffectiveLevelWeight (JStr namespace) st))"

text \<open>The record that an accepted call builds.\<close>
definition built_record :: "string \<Rightarrow> string \<Rightarrow> jsval list \<Rightarrow> world \<Rightarrow> state \<Rightarrow> log_record" where
  "built_record levelName namespace args w st =
     (let name = (case LEVELS levelName of None \<Rightarrow> ''log'' | Some lw \<Rightarrow> levelName);
          sanitized = applyRedaction args name namespace st;
          stack = maybeCaptureStack name st w
      in \<lparr>rec_time = JStr (now w), rec_level = JStr name, rec_namespace = JStr namespace,
          rec_preview = JStr (buildPreview sanitized), rec_args = sanitized,
          rec_stack = (if stack \<noteq> [] then Some stack else None)\<rparr>)"

text \<open>The world after the call of the native console, if it is made.\<close>
definition printed_world :: "string \<Rightarrow> string \<Rightarrow> jsval list \<Rightarrow> state \<Rightarrow> world \<Rightarrow> world" where
  "printed_world levelName namespace args st w =
     (let name = (case LEVELS levelName of None \<Rightarrow> ''log'' | Some lw \<Rightarrow> levelName) in
      if \<not> paused st \<and> printToNative (config st)
      then fst (call_native name (applyRedaction args name namespace st) w) else w)"

text \<open>The calls of a sequence that draw a random value in the configuration of a state.\<close>
fun drawing :: "state \<Rightarrow> buffer_op \<Rightarrow> bool" where
  "drawing st (Log levelName namespace args) =
     (level_passes levelName namespace st \<and> first_rule (sampleRules st) namespace \<noteq> None)"
| "drawing st x = False"

definition trimmed_entry :: "log_record \<Rightarrow> buffer_entry" where
  "trimmed_entry r = \<lparr>entry_time = rec_time r, entry_level = rec_level r,
     entry_namespace = rec_namespace r, entry_preview = rec_preview r\<rparr>"

text \<open>The composite key of \<open>once\<close>.\<close>
definition once_key :: "logger \<Rightarrow> string \<Rightarrow> string" where
  "once_key lg txt = logger_ns lg @ ''|'' @ txt"

text \<open>An entry whose four fields are the given strings, as the logger stores them.\<close>
definition text_entry :: "string \<Rightarrow> string \<Rightarrow> string \<Rightarrow> string \<Rightarrow> buffer_entry" where
  "text_entry t l n p = \<lparr>entry_time = JStr t, entry_level = JStr l, entry_namespace = JStr n,
                         entry_preview = JStr p\<rparr>"

text \<open>The string in a field, and the entries that hold four strings.\<close>
fun field_text :: "jsval \<Rightarrow> string" where
  "field_text (JStr s) = s"
| "field_text v = []"

fun is_text :: "jsval \<Rightarrow> bool" where
  "is_text (JStr s) = True"
| "is_text v = False"

definition text_fields :: "buffer_entry \<Rightarrow> bool" where
  "text_fields e = (is_text (entry_time e) \<and> is_text (entry_level e)
                    \<and> is_text (entry_namespace e) \<and> is_text (entry_preview e))"

text \<open>The text of one entry in the exported array, and the text between two entries.\<close>
definition entry_text :: "buffer_entry \<Rightarrow> string" where
  "entry_text e =
     CHR ''{'' # CHR 0x0A # ''    '' @ quote ''time'' @ '': '' @ quote (field_text (entry_time e)) @
     CHR '','' # CHR 0x0A # ''    '' @ quote ''level'' @ '': '' @ quote (field_text (entry_level e)) @
     CHR '','' # CHR 0x0A # ''    '' @ quote ''namespace'' @ '': '' @ quote (field_text (entry_namespace e)) @
     CHR '','' # CHR 0x0A # ''    '' @ quote ''preview'' @ '': '' @ quote (field_text (entry_preview e)) @
     CHR 0x0A # ''  }''"

definition entry_separator :: string where
  "entry_separator = CHR '','' # CHR 0x0A # ''  ''"

section \<open>Example states\<close>

definition star_regex :: regex where
  "star_regex = [RStart, RDotStar, REnd]"

text \<open>A world whose transport 1 throws; no transport touches the list or the entry.\<close>
definition example_world :: world where
  "example_world =
     \<lparr>now = ''2024-01-01T00:00:00.000Z'', random = (\<lambda>n. if even n then 1 / 4 else 3 / 4), draws = 0,
      nowMs = 1000, stack_text = ''Error at app.js:1'',
      native_text = (\<lambda>k. ''function '' @ k @ ''() { [native code] }''),
      sink_run = (\<lambda>h f e. \<lparr>sink_ops = [], sink_entry = e, sink_threw = (f = 1)\<rparr>),
      delivered = [], native_throws = True, printed = []\<rparr>"




text \<open>A world whose transport 1 stores a BigInt in the preview of the entry.\<close>
definition editing_world :: world where
  "editing_world = example_world
     \<lparr>sink_run := (\<lambda>h f e. \<lparr>sink_ops = [], sink_entry = e\<lparr>rec_preview := JBigInt 1\<rparr>,
                             sink_threw = False\<rparr>)\<rparr>"


definition entry_of :: "string \<Rightarrow> buffer_entry" where
  "entry_of p = text_entry ''t'' ''info'' ''app'' p"



definition two_entry_state :: state where
  "two_entry_state = fold addToBuffer [entry_of ''a'', entry_of [CHR 0x22, CHR 0x0A, CHR 0x01]] (initial_state star_regex)"

definition shrunk_state :: state where
  "shrunk_state = applyOverrides_bufferSize (JNum 1)
     (fold addToBuffer [entry_of ''a'', entry_of ''b''] (initial_state star_regex))"


definition blank_level_entry :: buffer_entry where
  "blank_level_entry = text_entry ''t'' [] ''app'' ''p''"

definition bigint_entry :: buffer_entry where
  "bigint_entry = \<lparr>entry_time = JStr ''t'', entry_level = JStr ''info'', entry_namespace = JStr ''app'',
                   entry_preview = JBigInt 1\<rparr>"

definition number_entry :: buffer_entry where
  "number_entry = \<lparr>entry_time = JStr ''t'', entry_level = JStr ''info'', entry_namespace = JStr ''app'',
                   entry_preview = JNum 7\<rparr>"


definition error_state :: state where
  "error_state = setLevel ''error'' (initial_state star_regex)"

definition sampled_state :: state where
  "sampled_state = (setLevel ''info'' (initial_state star_regex))
     \<lparr>sampleRules := [(RStart # token_atoms ''db:*'' @ [REnd], 1 / 2)]\<rparr>"

text \<open>A \<open>debug\<close> call and then a \<open>warn\<close> call on the sampled namespace.\<close>
definition two_calls :: "buffer_op list" where
  "two_calls = [Log ''debug'' ''db:q'' [JStr ''d''], Log ''warn'' ''db:q'' [JStr ''w'']]"

definition filtered_state :: state where
  "filtered_state =
     (case enableNamespaces (JStr ''app:*, -app:verbose'') (initial_state star_regex) of
        Inl e \<Rightarrow> initial_state star_regex
      | Inr st \<Rightarrow> st)"

definition newline_ns :: string where
  "newline_ns = [CHR ''a'', CHR 0x0A, CHR ''b'']"

definition db_logger :: logger where
  "db_logger = createLogger (JStr ''db'')"

text \<open>\<open>Object.create(null)\<close>: \<open>String\<close> of it throws, its JSON text is \<open>{}\<close>.\<close>
definition null_prototype_object :: jsval where
  "null_prototype_object = JExotic None (Some ''{}'')"

definition no_append :: jsval where
  "no_append = JObj [(''append'', JBool False)]"

section \<open>Wildcard patterns\<close>

lemma RegExp_escaped:
  "RegExp (star_to_dotstar (escape_specials token) @ rest)
   = (case RegExp rest of Inl e \<Rightarrow> Inl e | Inr r \<Rightarrow> Inr (token_atoms token @ r))"
proof (induction token)
  case Nil
  then show ?case by (simp add: token_atoms_def split: sum.splits)
next
  case (Cons c cs)
  show ?case
  proof (cases "c \<in> set escaped_class")
    case True
    then have "c \<noteq> CHR ''*''" by (auto simp: escaped_class_def)
    moreover from True have "c \<in> set syntax_chars" by (auto simp: escaped_class_def syntax_chars_def)
    ultimately show ?thesis using True Cons.IH
      by (simp add: token_atoms_def split: sum.splits)
  next
    case False
    show ?thesis
    proof (cases "c = CHR ''*''")
      case True
      then show ?thesis using False Cons.IH
        by (simp add: token_atoms_def split: sum.splits)
    next
      case star: False
      from False star have "c \<notin> set syntax_chars" "c \<noteq> CHR 0x5C" "c \<noteq> CHR ''.''" "c \<noteq> CHR ''^''" "c \<noteq> CHR ''$''"
        by (auto simp: escaped_class_def syntax_chars_def)
      then show ?thesis using False star Cons.IH
        by (simp add: token_atoms_def split: sum.splits)
    qed
  qed
qed

lemma createWildcardRegex_atoms:
  "createWildcardRegex token = Inr (RStart # token_atoms token @ [REnd])"
  using RegExp_escaped[of token "''$''"] by (simp add: createWildcardRegex_def)

lemma test_anchored: "test (RStart # r) s = matches r True s"
proof -
  have "list_ex (\<lambda>i. matches (RStart # r) (i = 0) (drop i s)) [0 ..< Suc (length s)]
        = (\<exists>i \<in> {0 ..< Suc (length s)}. i = 0 \<and> matches r (i = 0) (drop i s))"
    by (simp add: list_ex_iff del: upt_Suc)
  also have "\<dots> = matches r True s" by auto
  finally show ?thesis by (simp add: test_def)
qed

lemma matches_wildcard: "matches (token_atoms t @ [REnd]) b s = wildcard t s"
  by (induction t s arbitrary: b rule: wildcard.induct) (auto simp: token_atoms_def)

lemma test_createWildcardRegex:
  "createWildcardRegex token = Inr r \<Longrightarrow> test r s = wildcard token s"
  by (auto simp: createWildcardRegex_atoms test_anchored matches_wildcard)

lemma wildcard_literal: "CHR ''*'' \<notin> set t \<Longrightarrow> wildcard t s = (s = t)"
  by (induction t s rule: wildcard.induct) auto

lemma createWildcardRegex_total: "\<exists>r. createWildcardRegex token = Inr r"
  by (simp add: createWildcardRegex_atoms)

lemma wildcard_star:
  "wildcard (CHR ''*'' # p) s
   = (\<exists>u v. s = u @ v \<and> list_all (\<lambda>c. \<not> line_terminator c) u \<and> wildcard p v)"
proof (induction s)
  case Nil
  show ?case by (cases p) auto
next
  case (Cons x xs)
  have "wildcard (CHR ''*'' # p) (x # xs)
        = (wildcard p (x # xs) \<or> (\<not> line_terminator x \<and> wildcard (CHR ''*'' # p) xs))"
    by simp
  also have "\<dots> = (wildcard p (x # xs)
       \<or> (\<not> line_terminator x \<and> (\<exists>u v. xs = u @ v \<and> list_all (\<lambda>c. \<not> line_terminator c) u \<and> wildcard p v)))"
    using Cons.IH by simp
  also have "\<dots> = (\<exists>u v. x # xs = u @ v \<and> list_all (\<lambda>c. \<not> line_terminator c) u \<and> wildcard p v)"
  proof
    assume "wildcard p (x # xs)
       \<or> (\<not> line_terminator x \<and> (\<exists>u v. xs = u @ v \<and> list_all (\<lambda>c. \<not> line_terminator c) u \<and> wildcard p v))"
    then show "\<exists>u v. x # xs = u @ v \<and> list_all (\<lambda>c. \<not> line_terminator c) u \<and> wildcard p v"
    proof
      assume "wildcard p (x # xs)"
      then have "x # xs = [] @ (x # xs) \<and> list_all (\<lambda>c. \<not> line_terminator c) [] \<and> wildcard p (x # xs)" by simp
      then show ?thesis by blast
    next
      assume "\<not> line_terminator x \<and> (\<exists>u v. xs = u @ v \<and> list_all (\<lambda>c. \<not> line_terminator c) u \<and> wildcard p v)"
      then obtain u v where "\<not> line_terminator x" "xs = u @ v" "list_all (\<lambda>c. \<not> line_terminator c) u" "wildcard p v" by blast
      then have "x # xs = (x # u) @ v \<and> list_all (\<lambda>c. \<not> line_terminator c) (x # u) \<and> wildcard p v" by simp
      then show ?thesis by blast
    qed
  next
    assume "\<exists>u v. x # xs = u @ v \<and> list_all (\<lambda>c. \<not> line_terminator c) u \<and> wildcard p v"
    then obtain u v where uv: "x # xs = u @ v" "list_all (\<lambda>c. \<not> line_terminator c) u" "wildcard p v" by blast
    show "wildcard p (x # xs)
       \<or> (\<not> line_terminator x \<and> (\<exists>u v. xs = u @ v \<and> list_all (\<lambda>c. \<not> line_terminator c) u \<and> wildcard p v))"
    proof (cases u)
      case Nil
      then show ?thesis using uv by simp
    next
      case (Cons y ys)
      then have "\<not> line_terminator x" "xs = ys @ v" "list_all (\<lambda>c. \<not> line_terminator c) ys"
        using uv by auto
      then show ?thesis using uv(3) by blast
    qed
  qed
  finally show ?case .
qed

lemma wildcard_char:
  "c \<noteq> CHR ''*'' \<Longrightarrow> wildcard (c # p) s = (\<exists>v. s = c # v \<and> wildcard p v)"
  by (cases s) auto

lemma wildcard_spec_agree:
  "\<not> list_ex line_terminator s \<Longrightarrow> wildcard t s = spec_wildcard t s"
  by (induction t s rule: wildcard.induct) auto

section \<open>Namespace filters\<close>

lemma any_excluded_iff: "any_excluded res ns = list_ex (\<lambda>re. test re ns) res"
  by (induction res) auto

lemma any_included_iff: "any_included res ns = list_ex (\<lambda>re. test re ns) res"
  by (induction res) auto

lemma collect_patterns_total:
  "\<exists>i e. collect_patterns ts incs excs = Inr (i, e)"
  by (induction ts arbitrary: incs excs)
     (auto simp: Let_def createWildcardRegex_atoms)

lemma enableNamespaces_total: "\<exists>st'. enableNamespaces p st = Inr st'"
proof -
  obtain i e where "collect_patterns (filter (\<lambda>t. t \<noteq> []) (split_comma (replace_spaces (case p of JStr s \<Rightarrow> s | _ \<Rightarrow> [])))) [] [] = Inr (i, e)"
    using collect_patterns_total by blast
  then show ?thesis
    by (cases p) (auto simp: enableNamespaces_def allow_all_def createWildcardRegex_atoms)
qed

section \<open>The loop over the transports\<close>

lemma addTransport_frame: "\<exists>ts. addTransport fn st = st\<lparr>transports := ts\<rparr>"
  by (cases fn) (auto simp: addTransport_def intro: exI[of _ "transports st"])

lemma removeTransport_frame: "\<exists>ts. removeTransport fn st = st\<lparr>transports := ts\<rparr>"
  by (cases fn) (auto simp: removeTransport_def intro: exI[of _ "transports st"])

lemma run_transport_ops_frame: "\<exists>ts. run_transport_ops ops st = st\<lparr>transports := ts\<rparr>"
proof (induction ops arbitrary: st)
  case Nil
  show ?case by (auto intro: exI[of _ "transports st"])
next
  case (Cons x ops)
  show ?case
  proof (cases x)
    case (Add fn)
    obtain ts where "addTransport fn st = st\<lparr>transports := ts\<rparr>"
      using addTransport_frame by blast
    then show ?thesis using Cons[of "st\<lparr>transports := ts\<rparr>"] Add by auto
  next
    case (Remove fn)
    obtain ts where "removeTransport fn st = st\<lparr>transports := ts\<rparr>"
      using removeTransport_frame by blast
    then show ?thesis using Cons[of "st\<lparr>transports := ts\<rparr>"] Remove by auto
  qed
qed

lemma call_transport_frame:
  "\<exists>ts ds. fst (call_transport f entry ws)
            = ((fst ws)\<lparr>delivered := ds\<rparr>, (snd ws)\<lparr>transports := ts\<rparr>)"
  using run_transport_ops_frame[of "sink_ops (sink_run (fst ws) (delivered (fst ws)) f entry)" "snd ws"]
  by (auto simp: call_transport_def Let_def)

text \<open>
  Whatever the transports do, a notification that returns has changed the list of
  transports and the log of the calls only.
\<close>

lemma notify_from_frame:
  assumes "notify_from i entry ws = Some r"
  shows "\<exists>ts ds. fst r = (fst ws)\<lparr>delivered := ds\<rparr> \<and> snd (snd r) = (snd ws)\<lparr>transports := ts\<rparr>"
proof (rule notify_from.raw_induct[where P = "\<lambda>i entry ws r. \<exists>ts ds. fst r = (fst ws)\<lparr>delivered := ds\<rparr>
          \<and> snd (snd r) = (snd ws)\<lparr>transports := ts\<rparr>", OF _ assms], goal_cases)
  case (1 nf i entry ws r)
  show ?case
  proof (cases "i < length (transports (snd ws))")
    case False
    then have "r = (fst ws, entry, snd ws)" using 1(2) by simp
    then show ?thesis
      by (auto intro: exI[of _ "transports (snd ws)"] exI[of _ "delivered (fst ws)"])
  next
    case True
    obtain ws' entry' threw where c: "call_transport (transports (snd ws) ! i) entry ws = (ws', entry', threw)"
      by (cases "call_transport (transports (snd ws) ! i) entry ws")
    obtain ts ds where f: "ws' = ((fst ws)\<lparr>delivered := ds\<rparr>, (snd ws)\<lparr>transports := ts\<rparr>)"
      using call_transport_frame[of "transports (snd ws) ! i" entry ws] c by auto
    have "nf (Suc i) entry' ws' = Some r" using 1(2) True c by (simp split: if_splits)
    from 1(1)[OF this] obtain ts' ds' where
      "fst r = (fst ws')\<lparr>delivered := ds'\<rparr>" "snd (snd r) = (snd ws')\<lparr>transports := ts'\<rparr>"
      by blast
    then show ?thesis using f by auto
  qed
qed

lemma notifyTransports_frame:
  assumes "notifyTransports entry st w = Some (w', entry', st')"
  shows "\<exists>ts ds. w' = w\<lparr>delivered := ds\<rparr> \<and> st' = st\<lparr>transports := ts\<rparr>"
proof (cases "transports st = []")
  case True
  then show ?thesis using assms
    by (auto simp: notifyTransports_def intro: exI[of _ "transports st"] exI[of _ "delivered w"])
next
  case False
  then show ?thesis using assms notify_from_frame[of 0 entry "(w, st)" "(w', entry', st')"]
    by (simp add: notifyTransports_def)
qed

lemma transports_fixed_cong: "sink_run w' = sink_run w \<Longrightarrow> transports_fixed w' = transports_fixed w"
  by (simp add: transports_fixed_def)

lemma entry_kept_cong: "sink_run w' = sink_run w \<Longrightarrow> entry_kept w' = entry_kept w"
  by (simp add: entry_kept_def)

text \<open>
  When no transport registers or removes a transport while it is called, the loop ends
  and has called the transports of the list from the index on, in their order.
\<close>

lemma notify_from_fixed:
  "transports_fixed w \<Longrightarrow>
   notify_from i entry (w, st)
   = Some (fst (notify_all (drop i (transports st)) entry w),
           snd (notify_all (drop i (transports st)) entry w), st)"
proof (induction "length (transports st) - i" arbitrary: i entry w)
  case 0
  then have "drop i (transports st) = []" by simp
  then show ?case using 0 by (subst notify_from.simps) simp
next
  case (Suc k)
  then have lt: "i < length (transports st)" by simp
  let ?f = "transports st ! i"
  let ?w = "w\<lparr>delivered := delivered w @ [(?f, entry)]\<rparr>"
  let ?e = "sink_entry (sink_run w (delivered w) ?f entry)"
  have d: "drop i (transports st) = ?f # drop (Suc i) (transports st)"
    using lt by (simp add: Cons_nth_drop_Suc)
  have fixed: "transports_fixed ?w" using Suc.prems by (simp add: transports_fixed_def)
  have c: "call_transport ?f entry (w, st) = ((?w, st), ?e, sink_threw (sink_run w (delivered w) ?f entry))"
    using Suc.prems by (simp add: call_transport_def Let_def transports_fixed_def)
  have k: "k = length (transports st) - Suc i" using Suc(2) by simp
  have "notify_from (Suc i) ?e (?w, st)
        = Some (fst (notify_all (drop (Suc i) (transports st)) ?e ?w),
                snd (notify_all (drop (Suc i) (transports st)) ?e ?w), st)"
    by (rule Suc(1)[OF k fixed])
  then show ?case
    unfolding d by (subst notify_from.simps) (simp add: lt c)
qed

lemma notifyTransports_fixed:
  "transports_fixed w \<Longrightarrow>
   notifyTransports entry st w
   = Some (fst (notify_all (transports st) entry w), snd (notify_all (transports st) entry w), st)"
  using notify_from_fixed[of w 0 entry st] by (simp add: notifyTransports_def)


lemma notify_all_kept:
  "entry_kept w \<Longrightarrow>
   notify_all fs entry w = (w\<lparr>delivered := delivered w @ map (\<lambda>f. (f, entry)) fs\<rparr>, entry)"
proof (induction fs arbitrary: w)
  case Nil
  show ?case by simp
next
  case (Cons f fs)
  have k: "entry_kept (w\<lparr>delivered := delivered w @ [(f, entry)]\<rparr>)"
    using Cons.prems by (simp add: entry_kept_def)
  have e: "sink_entry (sink_run w (delivered w) f entry) = entry"
    using Cons.prems by (simp add: entry_kept_def)
  show ?case using Cons.IH[OF k] e by simp
qed


section \<open>The steps of a log call\<close>

lemma shouldPassSampling_frame:
  "snd (shouldPassSampling n st w)
   = w\<lparr>draws := draws w + (if first_rule (sampleRules st) (ns_string n) = None then 0 else 1)\<rparr>"
  by (auto simp: shouldPassSampling_def split: option.splits)

lemma printed_world_frame: "\<exists>p. printed_world l n a st w = w\<lparr>printed := p\<rparr>"
  by (auto simp: printed_world_def call_native_def Let_def intro: exI[of _ "printed w"])

lemma emit_rejected_level:
  "\<not> level_passes l n st \<Longrightarrow> emit l n a (w, st) = Some (w, st)"
  by (auto simp: emit_def level_passes_def call_weight_def split: option.splits)

lemma emit_rejected_sampling:
  "level_passes l n st \<Longrightarrow> \<not> fst (shouldPassSampling (JStr n) st w) \<Longrightarrow>
   emit l n a (w, st) = Some (snd (shouldPassSampling (JStr n) st w), st)"
  by (auto simp: emit_def level_passes_def call_weight_def split: option.splits prod.splits)

lemma emit_rejected_namespace:
  "level_passes l n st \<Longrightarrow> fst (shouldPassSampling (JStr n) st w) \<Longrightarrow>
   \<not> isNamespaceEnabled (JStr n) st \<Longrightarrow>
   emit l n a (w, st) = Some (snd (shouldPassSampling (JStr n) st w), st)"
  by (auto simp: emit_def level_passes_def call_weight_def split: option.splits prod.splits)

lemma maybeCaptureStack_world:
  "stack_text w' = stack_text w \<Longrightarrow> maybeCaptureStack name st w' = maybeCaptureStack name st w"
  by (auto simp: maybeCaptureStack_def Let_def)

lemma emit_accepted:
  assumes "level_passes l n st" "fst (shouldPassSampling (JStr n) st w)" "isNamespaceEnabled (JStr n) st"
  shows "emit l n a (w, st)
         = (case notifyTransports (built_record l n a w st) st
                   (printed_world l n a st (snd (shouldPassSampling (JStr n) st w))) of
              None \<Rightarrow> None
            | Some (w3, e', st') \<Rightarrow> Some (w3, addToBuffer (trimmed_entry e') st'))"
proof -
  obtain pass w1 where sps: "shouldPassSampling (JStr n) st w = (pass, w1)"
    by (cases "shouldPassSampling (JStr n) st w")
  have pass: "pass" using assms(2) sps by simp
  have w1: "now w1 = now w" "stack_text w1 = stack_text w"
    using shouldPassSampling_frame[of "JStr n" st w] sps by simp_all
  obtain name weight where nw: "(case LEVELS l of None \<Rightarrow> (''log'', 30) | Some lw \<Rightarrow> (l, lw)) = (name, weight)"
    by (cases "case LEVELS l of None \<Rightarrow> (''log'', 30::int) | Some lw \<Rightarrow> (l, lw)")
  have name: "name = (case LEVELS l of None \<Rightarrow> ''log'' | Some lw \<Rightarrow> l)"
    and weight: "weight = call_weight l"
    using nw by (auto simp: call_weight_def split: option.splits)
  have lv: "\<not> below weight (getEffectiveLevelWeight (JStr n) st)"
    using assms(1) weight by (simp add: level_passes_def)
  let ?san = "applyRedaction a name n st"
  let ?w2 = "if \<not> paused st \<and> printToNative (config st) then fst (call_native name ?san w1) else w1"
  have p: "?w2 = printed_world l n a st w1"
    by (simp add: printed_world_def Let_def name)
  have w2: "now ?w2 = now w" "stack_text ?w2 = stack_text w"
    using w1 by (simp_all add: call_native_def)
  have stack: "maybeCaptureStack name st ?w2 = maybeCaptureStack name st w"
    using w2(2) by (rule maybeCaptureStack_world)
  have rec: "\<lparr>rec_time = JStr (now ?w2), rec_level = JStr name, rec_namespace = JStr n,
              rec_preview = JStr (buildPreview ?san), rec_args = ?san,
              rec_stack = (if maybeCaptureStack name st ?w2 \<noteq> [] then Some (maybeCaptureStack name st ?w2) else None)\<rparr>
            = built_record l n a w st"
    unfolding stack w2(1) by (simp add: built_record_def Let_def name)
  show ?thesis
    unfolding emit_def prod.case nw sps Let_def rec snd_conv trimmed_entry_def
    using lv pass assms(3) p by simp
qed

text \<open>A log call that returns has changed the transports and the history only.\<close>

lemma emit_cases:
  assumes "emit l n a (w, st) = Some (w', st')"
  shows "(\<exists>d p. w' = w\<lparr>draws := d, printed := p\<rparr> \<and> st' = st)
         \<or> (\<exists>d p ds ts e. w' = w\<lparr>draws := d, printed := p, delivered := ds\<rparr>
               \<and> st' = addToBuffer e (st\<lparr>transports := ts\<rparr>))"
proof -
  let ?w1 = "snd (shouldPassSampling (JStr n) st w)"
  have w1: "?w1 = w\<lparr>draws := draws ?w1, printed := printed w\<rparr>"
    by (simp add: shouldPassSampling_frame)
  have id: "w = w\<lparr>draws := draws w, printed := printed w\<rparr>" by simp
  consider (a) "\<not> level_passes l n st"
    | (b) "level_passes l n st" "\<not> fst (shouldPassSampling (JStr n) st w)"
    | (c) "level_passes l n st" "fst (shouldPassSampling (JStr n) st w)" "\<not> isNamespaceEnabled (JStr n) st"
    | (d) "level_passes l n st" "fst (shouldPassSampling (JStr n) st w)" "isNamespaceEnabled (JStr n) st"
    by blast
  then show ?thesis
  proof cases
    case a
    then have "w' = w" "st' = st" using assms by (auto simp: emit_rejected_level)
    then show ?thesis using id by blast
  next
    case b
    then have "w' = ?w1" "st' = st" using assms by (auto simp: emit_rejected_sampling)
    then show ?thesis using w1 by metis
  next
    case c
    then have "w' = ?w1" "st' = st" using assms by (auto simp: emit_rejected_namespace)
    then show ?thesis using w1 by metis
  next
    case d
    let ?w2 = "printed_world l n a st ?w1"
    obtain p where p: "?w2 = ?w1\<lparr>printed := p\<rparr>" using printed_world_frame by blast
    from assms emit_accepted[OF d, of a]
    obtain w3 e' st3 where n: "notifyTransports (built_record l n a w st) st ?w2 = Some (w3, e', st3)"
      and r: "w' = w3" "st' = addToBuffer (trimmed_entry e') st3"
      by (auto split: option.splits)
    from notifyTransports_frame[OF n] obtain ts ds where
      f: "w3 = ?w2\<lparr>delivered := ds\<rparr>" "st3 = st\<lparr>transports := ts\<rparr>" by blast
    have "w' = w\<lparr>draws := draws ?w1, printed := p, delivered := ds\<rparr>"
      unfolding r(1) f(1) p by (simp add: shouldPassSampling_frame)
    then show ?thesis using r(2) f(2) by blast
  qed
qed

lemma emit_sink_run: "emit l n a (w, st) = Some (w', st') \<Longrightarrow> sink_run w' = sink_run w"
  using emit_cases[of l n a w st w' st'] by auto


text \<open>With transports that leave the list alone, a log call returns.\<close>

lemma emit_returns:
  assumes "transports_fixed w"
  shows "\<exists>r. emit l n a (w, st) = Some r"
proof -
  let ?w1 = "snd (shouldPassSampling (JStr n) st w)"
  let ?w2 = "printed_world l n a st ?w1"
  obtain p where p: "?w2 = ?w1\<lparr>printed := p\<rparr>" using printed_world_frame by blast
  have "sink_run ?w2 = sink_run w"
    unfolding p by (simp add: shouldPassSampling_frame)
  then have "transports_fixed ?w2" using assms transports_fixed_cong by blast
  from notifyTransports_fixed[OF this]
  have "\<exists>r. notifyTransports (built_record l n a w st) st ?w2 = Some r" by blast
  then show ?thesis
    using emit_rejected_level[of l n st a w] emit_rejected_sampling[of l n st w a]
      emit_rejected_namespace[of l n st w a] emit_accepted[of l n st w a]
    by (cases "level_passes l n st"; cases "fst (shouldPassSampling (JStr n) st w)";
        cases "isNamespaceEnabled (JStr n) st") auto
qed

lemma emit_draws:
  assumes "emit l n a (w, st) = Some (w', st')"
  shows "draws w' = draws w + (if level_passes l n st \<and> first_rule (sampleRules st) n \<noteq> None then 1 else 0)"
proof -
  let ?w1 = "snd (shouldPassSampling (JStr n) st w)"
  have d: "draws ?w1 = draws w + (if first_rule (sampleRules st) n = None then 0 else 1)"
    by (simp add: shouldPassSampling_frame ns_string_def)
  consider (a) "\<not> level_passes l n st"
    | (b) "level_passes l n st" "\<not> fst (shouldPassSampling (JStr n) st w)"
    | (c) "level_passes l n st" "fst (shouldPassSampling (JStr n) st w)" "\<not> isNamespaceEnabled (JStr n) st"
    | (d) "level_passes l n st" "fst (shouldPassSampling (JStr n) st w)" "isNamespaceEnabled (JStr n) st"
    by blast
  then show ?thesis
  proof cases
    case a
    then show ?thesis using assms by (simp add: emit_rejected_level)
  next
    case b
    then show ?thesis using assms d by (auto simp: emit_rejected_sampling)
  next
    case c
    then show ?thesis using assms d by (auto simp: emit_rejected_namespace)
  next
    case d
    let ?w2 = "printed_world l n a st ?w1"
    obtain p where p: "?w2 = ?w1\<lparr>printed := p\<rparr>" using printed_world_frame by blast
    from assms emit_accepted[OF d, of a]
    obtain w3 e' st3 where n: "notifyTransports (built_record l n a w st) st ?w2 = Some (w3, e', st3)"
      and r: "w' = w3"
      by (auto split: option.splits)
    from notifyTransports_frame[OF n] obtain ts ds where
      f: "w3 = ?w2\<lparr>delivered := ds\<rparr>" by blast
    have "draws w' = draws ?w1" unfolding r f p by simp
    then show ?thesis using d(1) \<open>draws ?w1 = _\<close> by simp
  qed
qed
section \<open>Claims on patterns and namespaces\<close>

text \<open>
  C4. The default pattern \<open>*\<close> compiles to \<open>^.*$\<close>, which does not match a namespace
  that holds a line terminator, although in the words of the specification \<open>*\<close> matches
  any run of characters: such a namespace is disabled under the default configuration.
\<close>

theorem star_pattern_rejects_line_terminator:
  "createWildcardRegex ''*'' = Inr star_regex
   \<and> spec_wildcard ''*'' newline_ns
   \<and> \<not> test star_regex newline_ns
   \<and> \<not> isNamespaceEnabled (JStr newline_ns) (initial_state star_regex)"
proof -
  have 1: "createWildcardRegex ''*'' = Inr star_regex"
    by (simp add: createWildcardRegex_atoms token_atoms_def star_regex_def)
  have 2: "spec_wildcard ''*'' newline_ns" by (simp add: newline_ns_def)
  have 3: "\<not> test star_regex newline_ns"
    by (simp add: star_regex_def test_anchored newline_ns_def line_terminator_def)
  have 4: "\<not> isNamespaceEnabled (JStr newline_ns) (initial_state star_regex)"
    using 3 by (simp add: isNamespaceEnabled_def ns_or_global_def initial_state_def newline_ns_def)
  from 1 2 3 4 show ?thesis by blast
qed

text \<open>
  The rest of the pattern law holds: compilation never throws, the compiled pattern is
  anchored at both ends, a token without \<open>*\<close> matches itself only, and on strings
  without line terminators the pattern is the one of the specification.
\<close>

lemma wildcard_pattern_law:
  "\<exists>r. createWildcardRegex token = Inr r
       \<and> (\<forall>s. test r s = wildcard token s)
       \<and> (CHR ''*'' \<notin> set token \<longrightarrow> (\<forall>s. test r s = (s = token)))
       \<and> (\<forall>s. \<not> list_ex line_terminator s \<longrightarrow> test r s = spec_wildcard token s)"
  using test_createWildcardRegex[of token] wildcard_literal[of token] wildcard_spec_agree[of _ token]
  by (simp add: createWildcardRegex_atoms)

lemma wildcard_a_star_b:
  "wildcard ''a*b'' ''ab'' \<and> wildcard ''a*b'' ''axb'' \<and> wildcard ''a*b'' ''axxxb''
   \<and> \<not> wildcard ''a*b'' ''a'' \<and> \<not> wildcard ''a*b'' ''b''"
  by (simp add: line_terminator_def)

text \<open>
  C5. \<open>isNamespaceEnabled\<close> is false whenever an exclude pattern matches, whatever the
  include patterns; otherwise it is true exactly when an include pattern matches; a
  namespace that is not a string, or is the empty string, is read as \<open>global\<close>.
\<close>

theorem isNamespaceEnabled_excludes_first:
  "isNamespaceEnabled namespace st
     = (\<not> list_ex (\<lambda>re. test re (ns_or_global namespace)) (excludePatterns st)
        \<and> list_ex (\<lambda>re. test re (ns_or_global namespace)) (includePatterns st))
   \<and> (list_ex (\<lambda>re. test re (ns_or_global namespace)) (excludePatterns st)
        \<longrightarrow> \<not> isNamespaceEnabled namespace st)
   \<and> ((\<forall>s. namespace \<noteq> JStr s) \<or> namespace = JStr [] \<longrightarrow> ns_or_global namespace = ''global'')
   \<and> (\<forall>s. s \<noteq> [] \<longrightarrow> ns_or_global (JStr s) = s)"
  by (cases namespace)
     (auto simp: isNamespaceEnabled_def Let_def any_excluded_iff any_included_iff ns_or_global_def)

lemma filtered_state_patterns:
  "includePatterns filtered_state = [RStart # token_atoms ''app:*'' @ [REnd]]"
  "excludePatterns filtered_state = [RStart # token_atoms ''app:verbose'' @ [REnd]]"
  by (simp_all add: filtered_state_def enableNamespaces_def allow_all_def createWildcardRegex_atoms
      is_space_def trim_def Let_def)

theorem isNamespaceEnabled_excludes_first_witness:
  "\<not> isNamespaceEnabled (JStr ''app:verbose'') filtered_state
   \<and> isNamespaceEnabled (JStr ''app:core'') filtered_state
   \<and> \<not> isNamespaceEnabled (JStr ''db'') filtered_state
   \<and> ns_or_global (JNum 7) = ''global''"
  using isNamespaceEnabled_excludes_first[of "JStr ''app:verbose''" filtered_state]
        isNamespaceEnabled_excludes_first[of "JStr ''app:core''" filtered_state]
        isNamespaceEnabled_excludes_first[of "JStr ''db''" filtered_state]
        isNamespaceEnabled_excludes_first[of "JNum 7" filtered_state]
  by (simp add: filtered_state_patterns ns_or_global_def test_anchored matches_wildcard line_terminator_def)

section \<open>The bounded history\<close>


lemma addToBuffer_trim_front:
  "addToBuffer e st = st\<lparr>buffer := trim_front (bufferSize (config st)) (buffer st @ [e])\<rparr>"
  by (simp add: addToBuffer_def trim_front_def Let_def)


lemma addToBuffer_config [simp]: "config (addToBuffer e st) = config st"
  by (simp add: addToBuffer_def Let_def)



lemma importBuffer_read:
  "append_mode opts = Inr flag \<Longrightarrow> import_source d = Inr (JArr es) \<Longrightarrow>
   import_entries w es = Inr bs \<Longrightarrow>
   importBuffer d opts w st
   = Inr (True, st\<lparr>buffer := trim_front (bufferSize (config st))
                                ((if flag then buffer st else []) @ bs)\<rparr>)"
  by (simp add: importBuffer_def trim_front_def Let_def)

lemma importBuffer_True:
  "importBuffer d opts w st = Inr (True, st') \<Longrightarrow>
   \<exists>flag es bs. append_mode opts = Inr flag \<and> import_source d = Inr (JArr es)
      \<and> import_entries w es = Inr bs
      \<and> st' = st\<lparr>buffer := trim_front (bufferSize (config st))
                                ((if flag then buffer st else []) @ bs)\<rparr>"
  by (auto simp: importBuffer_def trim_front_def Let_def split: sum.splits jsval.splits if_splits)



lemma importBuffer_False:
  "importBuffer d opts w st = Inr (False, st') \<Longrightarrow> st' = st"
  by (auto simp: importBuffer_def Let_def split: sum.splits jsval.splits if_splits)


lemma run_op_sink_run: "run_op x ws = Some r \<Longrightarrow> sink_run (fst r) = sink_run (fst ws)"
proof (cases x)
  case (Log l n a)
  assume "run_op x ws = Some r"
  then have "emit l n a (fst ws, snd ws) = Some (fst r, snd r)" using Log by simp
  then show ?thesis by (rule emit_sink_run)
next
  case (Append e)
  assume "run_op x ws = Some r"
  then show ?thesis using Append by auto
next
  case (Import d opts)
  assume "run_op x ws = Some r"
  then show ?thesis using Import by (auto split: sum.splits)
qed



text \<open>With transports that leave the list alone, every call of a sequence returns.\<close>

lemma run_op_returns: "transports_fixed (fst ws) \<Longrightarrow> \<exists>r. run_op x ws = Some r"
proof (cases x)
  case (Log l n a)
  assume "transports_fixed (fst ws)"
  from emit_returns[OF this, of l n a "snd ws"] show ?thesis using Log by simp
next
  case (Append e)
  then show ?thesis by simp
next
  case (Import d opts)
  then show ?thesis by (auto split: sum.splits)
qed

lemma run_ops_returns: "transports_fixed (fst ws) \<Longrightarrow> \<exists>r. run_ops xs ws = Some r"
proof (induction xs arbitrary: ws)
  case Nil
  show ?case by simp
next
  case (Cons x xs)
  from run_op_returns[OF Cons.prems, of x] obtain ws' where x: "run_op x ws = Some ws'" by blast
  have "transports_fixed (fst ws')"
    using run_op_sink_run[OF x] Cons.prems transports_fixed_cong by blast
  from Cons.IH[OF this] show ?case using x by simp
qed




lemma shrunk_state_simps:
  "bufferSize (config shrunk_state) = 1"
  "buffer shrunk_state = [entry_of ''a'', entry_of ''b'']"
  by (simp_all add: shrunk_state_def applyOverrides_bufferSize_def initial_state_def addToBuffer_def
      to_int32_def)




lemma example_world_fixed: "transports_fixed example_world" "entry_kept example_world"
  by (simp_all add: transports_fixed_def entry_kept_def example_world_def)




section \<open>Fan-out to the transports\<close>


text \<open>Transports that leave the entry alone hand it on as it was.\<close>

lemma notify_from_kept:
  assumes "notify_from i entry ws = Some r"
  shows "entry_kept (fst ws) \<longrightarrow> fst (snd r) = entry"
proof (rule notify_from.raw_induct[where P = "\<lambda>i entry ws r. entry_kept (fst ws) \<longrightarrow> fst (snd r) = entry",
        OF _ assms], goal_cases)
  case (1 nf i entry ws r)
  show ?case
  proof
    assume k: "entry_kept (fst ws)"
    show "fst (snd r) = entry"
    proof (cases "i < length (transports (snd ws))")
      case False
      then show ?thesis using 1(2) by auto
    next
      case True
      obtain ws' entry' threw where c: "call_transport (transports (snd ws) ! i) entry ws = (ws', entry', threw)"
        by (cases "call_transport (transports (snd ws) ! i) entry ws")
      have e: "entry' = entry" and k': "entry_kept (fst ws')"
        using c k by (auto simp: call_transport_def Let_def entry_kept_def)
      have "nf (Suc i) entry' ws' = Some r" using 1(2) True c by (simp split: if_splits)
      from 1(1)[OF this] k' e show ?thesis by simp
    qed
  qed
qed

lemma notifyTransports_kept:
  "entry_kept w \<Longrightarrow> notifyTransports entry st w = Some (w', entry', st') \<Longrightarrow> entry' = entry"
  using notify_from_kept[of 0 entry "(w, st)" "(w', entry', st')"]
  by (auto simp: notifyTransports_def split: if_splits)

lemma world_after_checks:
  "sink_run (printed_world l n a st (snd (shouldPassSampling ns st w))) = sink_run w"
  "delivered (printed_world l n a st (snd (shouldPassSampling ns st w))) = delivered w"
  by (simp_all add: printed_world_def call_native_def Let_def shouldPassSampling_frame)

lemma emit_accepted_kept:
  assumes "level_passes l n st" "fst (shouldPassSampling (JStr n) st w)" "isNamespaceEnabled (JStr n) st"
    and "entry_kept w" and "emit l n a (w, st) = Some (w', st')"
  shows "\<exists>ts. st' = addToBuffer (trimmed_entry (built_record l n a w st)) (st\<lparr>transports := ts\<rparr>)"
proof -
  let ?w2 = "printed_world l n a st (snd (shouldPassSampling (JStr n) st w))"
  have k: "entry_kept ?w2" using assms(4) world_after_checks(1) entry_kept_cong by blast
  from assms(5) emit_accepted[OF assms(1,2,3), of a]
  obtain w3 e' st3 where n: "notifyTransports (built_record l n a w st) st ?w2 = Some (w3, e', st3)"
    and r: "st' = addToBuffer (trimmed_entry e') st3"
    by (auto split: option.splits)
  have "e' = built_record l n a w st" using notifyTransports_kept[OF k n] .
  moreover obtain ts where "st3 = st\<lparr>transports := ts\<rparr>" using notifyTransports_frame[OF n] by blast
  ultimately show ?thesis using r by blast
qed

lemma emit_accepted_fixed:
  assumes "level_passes l n st" "fst (shouldPassSampling (JStr n) st w)" "isNamespaceEnabled (JStr n) st"
    and "transports_fixed w" and "entry_kept w"
  shows "\<exists>w'. emit l n a (w, st) = Some (w', addToBuffer (trimmed_entry (built_record l n a w st)) st)
            \<and> delivered w' = delivered w @ map (\<lambda>f. (f, built_record l n a w st)) (transports st)"
proof -
  let ?w2 = "printed_world l n a st (snd (shouldPassSampling (JStr n) st w))"
  let ?e = "built_record l n a w st"
  have f: "transports_fixed ?w2" using assms(4) world_after_checks(1) transports_fixed_cong by blast
  have k: "entry_kept ?w2" using assms(5) world_after_checks(1) entry_kept_cong by blast
  have "notifyTransports ?e st ?w2
        = Some (?w2\<lparr>delivered := delivered ?w2 @ map (\<lambda>f. (f, ?e)) (transports st)\<rparr>, ?e, st)"
    using notifyTransports_fixed[OF f, of ?e st] notify_all_kept[OF k, of "transports st" ?e] by simp
  then have "emit l n a (w, st)
        = Some (?w2\<lparr>delivered := delivered ?w2 @ map (\<lambda>f. (f, ?e)) (transports st)\<rparr>,
                addToBuffer (trimmed_entry ?e) st)"
    using emit_accepted[OF assms(1,2,3), of a] by simp
  then show ?thesis using world_after_checks(2)[of l n a st "JStr n" w] by simp
qed





lemma initial_state_accepts:
  "level_passes ''info'' ''db'' (initial_state star_regex)"
  "fst (shouldPassSampling (JStr ''db'') (initial_state star_regex) w)"
  "isNamespaceEnabled (JStr ''db'') (initial_state star_regex)"
  by (simp_all add: level_passes_def call_weight_def LEVELS_def getEffectiveLevelWeight_def
      initial_state_def ns_string_def shouldPassSampling_def isNamespaceEnabled_def ns_or_global_def
      star_regex_def test_anchored line_terminator_def)


section \<open>Level names\<close>









section \<open>Import modes\<close>





section \<open>The acceptance decision\<close>

lemma run_op_frame:
  assumes "run_op x ws = Some r"
  shows "\<exists>ts b. snd r = (snd ws)\<lparr>transports := ts, buffer := b\<rparr>"
proof (cases x)
  case (Log l n a)
  then have "emit l n a (fst ws, snd ws) = Some (fst r, snd r)" using assms by simp
  from emit_cases[OF this] show ?thesis
  proof
    assume "\<exists>d p. fst r = (fst ws)\<lparr>draws := d, printed := p\<rparr> \<and> snd r = snd ws"
    then have "snd r = (snd ws)\<lparr>transports := transports (snd ws), buffer := buffer (snd ws)\<rparr>" by simp
    then show ?thesis by blast
  next
    assume "\<exists>d p ds ts e. fst r = (fst ws)\<lparr>draws := d, printed := p, delivered := ds\<rparr>
               \<and> snd r = addToBuffer e ((snd ws)\<lparr>transports := ts\<rparr>)"
    then obtain ts e where "snd r = addToBuffer e ((snd ws)\<lparr>transports := ts\<rparr>)" by blast
    then have "snd r = (snd ws)\<lparr>transports := ts,
        buffer := trim_front (bufferSize (config (snd ws))) (buffer (snd ws) @ [e])\<rparr>"
      by (simp add: addToBuffer_trim_front)
    then show ?thesis by blast
  qed
next
  case (Append e)
  then have "snd r = (snd ws)\<lparr>transports := transports (snd ws),
        buffer := trim_front (bufferSize (config (snd ws))) (buffer (snd ws) @ [e])\<rparr>"
    using assms by (auto simp: addToBuffer_trim_front)
  then show ?thesis by blast
next
  case (Import d opts)
  show ?thesis
  proof (cases "importBuffer d opts (fst ws) (snd ws)")
    case (Inl e)
    then have "snd r = (snd ws)\<lparr>transports := transports (snd ws), buffer := buffer (snd ws)\<rparr>"
      using Import assms by auto
    then show ?thesis by blast
  next
    case (Inr res)
    obtain ok st' where res: "res = (ok, st')" by (cases res)
    then have r: "snd r = st'" using Import Inr assms by auto
    show ?thesis
    proof (cases ok)
      case True
      from importBuffer_True[of d opts "fst ws" "snd ws" st'] Inr res True
      obtain b where "st' = (snd ws)\<lparr>buffer := b\<rparr>" by auto
      then have "snd r = (snd ws)\<lparr>transports := transports (snd ws), buffer := b\<rparr>" using r by simp
      then show ?thesis by blast
    next
      case False
      then have "st' = snd ws" using importBuffer_False[of d opts "fst ws" "snd ws" st'] Inr res by simp
      then have "snd r = (snd ws)\<lparr>transports := transports (snd ws), buffer := buffer (snd ws)\<rparr>"
        using r by simp
      then show ?thesis by blast
    qed
  qed
qed

lemma level_passes_frame:
  "levelWeight st' = levelWeight st \<Longrightarrow> nsLevelRules st' = nsLevelRules st \<Longrightarrow>
   level_passes l n st' = level_passes l n st"
  by (auto simp: level_passes_def getEffectiveLevelWeight_def split: option.splits)

lemma addToBuffer_levels [simp]:
  "levelWeight (addToBuffer e st) = levelWeight st"
  "nsLevelRules (addToBuffer e st) = nsLevelRules st"
  "sampleRules (addToBuffer e st) = sampleRules st"
  by (simp_all add: addToBuffer_def Let_def)

lemma drawing_frame: "drawing (st\<lparr>transports := ts, buffer := b\<rparr>) x = drawing st x"
  using level_passes_frame[of "st\<lparr>transports := ts, buffer := b\<rparr>" st]
  by (cases x) simp_all

lemma run_op_draws:
  assumes "run_op x ws = Some r"
  shows "draws (fst r) = draws (fst ws) + (if drawing (snd ws) x then 1 else 0)"
proof (cases x)
  case (Log l n a)
  then have "emit l n a (fst ws, snd ws) = Some (fst r, snd r)" using assms by simp
  from emit_draws[OF this] show ?thesis using Log by simp
next
  case (Append e)
  then show ?thesis using assms by auto
next
  case (Import d opts)
  then show ?thesis using assms by (auto split: sum.splits)
qed

text \<open>
  Over a sequence of calls, the draws are counted by the calls that pass the level
  check on a namespace with a sampling rule.
\<close>

lemma run_ops_draws:
  "run_ops xs ws = Some r \<Longrightarrow> draws (fst r) = draws (fst ws) + length (filter (drawing (snd ws)) xs)"
proof (induction xs arbitrary: ws)
  case Nil
  then show ?case by simp
next
  case (Cons x xs)
  from Cons.prems obtain ws' where x: "run_op x ws = Some ws'" and xs: "run_ops xs ws' = Some r"
    by (auto split: option.splits)
  obtain ts b where f: "snd ws' = (snd ws)\<lparr>transports := ts, buffer := b\<rparr>"
    using run_op_frame[OF x] by blast
  have d: "drawing (snd ws') = drawing (snd ws)"
    unfolding f using drawing_frame by blast
  from Cons.IH[OF xs] run_op_draws[OF x] d show ?case by simp
qed

lemma shouldPassSampling_rule:
  "first_rule (sampleRules st) n = Some v \<Longrightarrow>
   shouldPassSampling (JStr n) st w = (random w (draws w) < v, w\<lparr>draws := Suc (draws w)\<rparr>)"
  "first_rule (sampleRules st) n = None \<Longrightarrow> shouldPassSampling (JStr n) st w = (True, w)"
  by (simp_all add: shouldPassSampling_def ns_string_def)

text \<open>
  C3, as the code has it. \<open>emit\<close> rejects a call whose weight is below the effective
  weight of its namespace; else it rejects it when the sampling check fails; else when
  the namespace is disabled; else it accepts it: the record goes to the transports and
  then into the history. A random value is drawn exactly when the level check has passed
  and a sampling rule matches the namespace (no rule, no draw). The sampling check
  compares the rate with the next value of the random sequence, the one at the number
  of draws made so far; over a sequence of calls that number grows by one at each call
  that passes the level check on a namespace with a sampling rule. So the value that a
  call draws depends on the level checks of the calls before it.
\<close>

theorem emit_decision_order:
  "(\<not> level_passes l n st \<longrightarrow> emit l n a (w, st) = Some (w, st))
   \<and> (level_passes l n st \<and> \<not> fst (shouldPassSampling (JStr n) st w) \<longrightarrow>
        emit l n a (w, st) = Some (snd (shouldPassSampling (JStr n) st w), st))
   \<and> (level_passes l n st \<and> fst (shouldPassSampling (JStr n) st w) \<and> \<not> isNamespaceEnabled (JStr n) st \<longrightarrow>
        emit l n a (w, st) = Some (snd (shouldPassSampling (JStr n) st w), st))
   \<and> (level_passes l n st \<and> fst (shouldPassSampling (JStr n) st w) \<and> isNamespaceEnabled (JStr n) st \<longrightarrow>
        emit l n a (w, st)
        = (case notifyTransports (built_record l n a w st) st
                  (printed_world l n a st (snd (shouldPassSampling (JStr n) st w))) of
             None \<Rightarrow> None
           | Some (w3, e', st') \<Rightarrow> Some (w3, addToBuffer (trimmed_entry e') st')))
   \<and> (level_passes l n st \<and> fst (shouldPassSampling (JStr n) st w) \<and> isNamespaceEnabled (JStr n) st
        \<and> transports_fixed w \<and> entry_kept w \<longrightarrow>
        (\<exists>w'. emit l n a (w, st)
               = Some (w', addToBuffer (trimmed_entry (built_record l n a w st)) st)))
   \<and> (\<forall>r. emit l n a (w, st) = Some r \<longrightarrow>
        draws (fst r)
        = draws w + (if level_passes l n st \<and> first_rule (sampleRules st) n \<noteq> None then 1 else 0))
   \<and> (first_rule (sampleRules st) n = Some v \<longrightarrow>
        shouldPassSampling (JStr n) st w = (random w (draws w) < v, w\<lparr>draws := Suc (draws w)\<rparr>))
   \<and> (first_rule (sampleRules st) n = None \<longrightarrow> shouldPassSampling (JStr n) st w = (True, w))
   \<and> (\<forall>r. run_ops xs (w, st) = Some r \<longrightarrow>
        draws (fst r) = draws w + length (filter (drawing st) xs))"
proof -
  have 1: "\<not> level_passes l n st \<longrightarrow> emit l n a (w, st) = Some (w, st)"
    using emit_rejected_level[of l n st a w] by blast
  have 2: "level_passes l n st \<and> \<not> fst (shouldPassSampling (JStr n) st w) \<longrightarrow>
        emit l n a (w, st) = Some (snd (shouldPassSampling (JStr n) st w), st)"
    using emit_rejected_sampling[of l n st w a] by blast
  have 3: "level_passes l n st \<and> fst (shouldPassSampling (JStr n) st w) \<and> \<not> isNamespaceEnabled (JStr n) st \<longrightarrow>
        emit l n a (w, st) = Some (snd (shouldPassSampling (JStr n) st w), st)"
    using emit_rejected_namespace[of l n st w a] by blast
  have 4: "level_passes l n st \<and> fst (shouldPassSampling (JStr n) st w) \<and> isNamespaceEnabled (JStr n) st \<longrightarrow>
        emit l n a (w, st)
        = (case notifyTransports (built_record l n a w st) st
                  (printed_world l n a st (snd (shouldPassSampling (JStr n) st w))) of
             None \<Rightarrow> None
           | Some (w3, e', st') \<Rightarrow> Some (w3, addToBuffer (trimmed_entry e') st'))"
    using emit_accepted[of l n st w a] by blast
  have 5: "level_passes l n st \<and> fst (shouldPassSampling (JStr n) st w) \<and> isNamespaceEnabled (JStr n) st
        \<and> transports_fixed w \<and> entry_kept w \<longrightarrow>
        (\<exists>w'. emit l n a (w, st)
               = Some (w', addToBuffer (trimmed_entry (built_record l n a w st)) st))"
    using emit_accepted_fixed[of l n st w a] by blast
  have 6: "\<forall>r. emit l n a (w, st) = Some r \<longrightarrow>
        draws (fst r)
        = draws w + (if level_passes l n st \<and> first_rule (sampleRules st) n \<noteq> None then 1 else 0)"
  proof (intro allI impI)
    fix r assume "emit l n a (w, st) = Some r"
    then have "emit l n a (w, st) = Some (fst r, snd r)" by simp
    then show "draws (fst r)
        = draws w + (if level_passes l n st \<and> first_rule (sampleRules st) n \<noteq> None then 1 else 0)"
      by (rule emit_draws)
  qed
  have 7: "first_rule (sampleRules st) n = Some v \<longrightarrow>
        shouldPassSampling (JStr n) st w = (random w (draws w) < v, w\<lparr>draws := Suc (draws w)\<rparr>)"
    using shouldPassSampling_rule(1)[of st n v w] by blast
  have 8: "first_rule (sampleRules st) n = None \<longrightarrow> shouldPassSampling (JStr n) st w = (True, w)"
    using shouldPassSampling_rule(2)[of st n w] by blast
  have 9: "\<forall>r. run_ops xs (w, st) = Some r \<longrightarrow>
        draws (fst r) = draws w + length (filter (drawing st) xs)"
    using run_ops_draws[of xs "(w, st)"] by simp
  from 1 2 3 4 5 6 7 8 9 show ?thesis by blast
qed

lemma sampled_state_facts:
  "level_passes ''warn'' ''app'' sampled_state"
  "level_passes ''warn'' ''db:q'' sampled_state"
  "\<not> level_passes ''debug'' ''db:q'' sampled_state"
  "first_rule (sampleRules sampled_state) ''app'' = None"
  "first_rule (sampleRules sampled_state) ''db:q'' = Some (1 / 2)"
  "isNamespaceEnabled (JStr ''db:q'') sampled_state"
  "isNamespaceEnabled (JStr ''app'') sampled_state"
  by (simp_all add: level_passes_def call_weight_def LEVELS_def getEffectiveLevelWeight_def
      sampled_state_def setLevel_def initial_state_def ns_string_def test_anchored matches_wildcard
      line_terminator_def isNamespaceEnabled_def ns_or_global_def star_regex_def)

lemma sampled_debug_facts:
  "level_passes ''warn'' ''db:q'' (setLevel ''debug'' sampled_state)"
  "level_passes ''debug'' ''db:q'' (setLevel ''debug'' sampled_state)"
  "first_rule (sampleRules (setLevel ''debug'' sampled_state)) ''db:q'' = Some (1 / 2)"
  "isNamespaceEnabled (JStr ''db:q'') (setLevel ''debug'' sampled_state)"
  by (simp_all add: level_passes_def call_weight_def LEVELS_def getEffectiveLevelWeight_def
      sampled_state_def setLevel_def initial_state_def ns_string_def test_anchored matches_wildcard
      line_terminator_def isNamespaceEnabled_def ns_or_global_def star_regex_def)

lemma example_world_draw:
  "transports_fixed (example_world\<lparr>draws := k\<rparr>)" "entry_kept (example_world\<lparr>draws := k\<rparr>)"
  "random (example_world\<lparr>draws := k\<rparr>) j = (if even j then 1 / 4 else 3 / 4)"
  by (simp_all add: transports_fixed_def entry_kept_def example_world_def)

lemma preview_of_text: "length s \<le> 300 \<Longrightarrow> buildPreview [JStr s] = s"
  by (simp add: buildPreview_def stringifyForPreview_def)

text \<open>
  With the sampling rule \<open>db:*\<close> at the rate one half only, a \<open>warn\<close> call on \<open>app\<close>
  passes the level check and draws nothing. And with the random values one quarter and
  three quarters, a \<open>debug\<close> call followed by a \<open>warn\<close> call on \<open>db:q\<close>: at the
  threshold \<open>info\<close> the \<open>warn\<close> call draws the first value and is recorded; at the
  threshold \<open>debug\<close>, where its level passes as well, it draws the second value and is
  rejected.
\<close>

theorem emit_decision_order_counterexample:
  "level_passes ''warn'' ''app'' sampled_state
   \<and> map_option (\<lambda>r. draws (fst r)) (emit ''warn'' ''app'' [] (example_world, sampled_state))
       = Some (draws example_world)
   \<and> level_passes ''warn'' ''db:q'' sampled_state
   \<and> level_passes ''warn'' ''db:q'' (setLevel ''debug'' sampled_state)
   \<and> map_option (\<lambda>r. map entry_preview (buffer (snd r)))
        (run_ops two_calls (example_world, sampled_state)) = Some [JStr ''w'']
   \<and> map_option (\<lambda>r. map entry_preview (buffer (snd r)))
        (run_ops two_calls (example_world, setLevel ''debug'' sampled_state)) = Some [JStr ''d'']"
proof -
  let ?sd = "setLevel ''debug'' sampled_state"
  have b0: "buffer sampled_state = []" "buffer ?sd = []"
    "bufferSize (config sampled_state) = 500" "bufferSize (config ?sd) = 500"
    by (simp_all add: sampled_state_def setLevel_def LEVELS_def initial_state_def)
  have red: "applyRedaction a l n sampled_state = a" "applyRedaction a l n ?sd = a" for a l n
    by (simp_all add: applyRedaction_def sampled_state_def setLevel_def LEVELS_def initial_state_def)
  have pv: "rec_preview (built_record l n [JStr s] w sampled_state) = JStr (buildPreview [JStr s])"
    "rec_preview (built_record l n [JStr s] w ?sd) = JStr (buildPreview [JStr s])" for l n s w
    by (simp_all add: built_record_def Let_def red)
  have s0: "shouldPassSampling (JStr ''db:q'') st example_world
            = (True, example_world\<lparr>draws := 1\<rparr>)"
    if "first_rule (sampleRules st) ''db:q'' = Some (1 / 2)" for st
    using shouldPassSampling_rule(1)[OF that, of example_world] by (simp add: example_world_def)
  have s1: "shouldPassSampling (JStr ''db:q'') st (w\<lparr>draws := 1\<rparr>)
            = (False, w\<lparr>draws := 2\<rparr>)"
    if "first_rule (sampleRules st) ''db:q'' = Some (1 / 2)" "random w 1 = 3 / 4" for st w
    using shouldPassSampling_rule(1)[OF that(1), of "w\<lparr>draws := 1\<rparr>"] that(2) by simp
  have 1: "map_option (\<lambda>r. draws (fst r)) (emit ''warn'' ''app'' [] (example_world, sampled_state))
       = Some (draws example_world)"
  proof -
    obtain r where r: "emit ''warn'' ''app'' [] (example_world, sampled_state) = Some r"
      using emit_returns[OF example_world_fixed(1)] by blast
    then have "emit ''warn'' ''app'' [] (example_world, sampled_state) = Some (fst r, snd r)" by simp
    from emit_draws[OF this] show ?thesis using r by (simp add: sampled_state_facts)
  qed
  have 2: "map_option (\<lambda>r. map entry_preview (buffer (snd r)))
        (run_ops two_calls (example_world, sampled_state)) = Some [JStr ''w'']"
  proof -
    have a: "emit ''debug'' ''db:q'' [JStr ''d''] (example_world, sampled_state)
             = Some (example_world, sampled_state)"
      by (rule emit_rejected_level) (rule sampled_state_facts(3))
    obtain w' where b: "emit ''warn'' ''db:q'' [JStr ''w''] (example_world, sampled_state)
        = Some (w', addToBuffer (trimmed_entry (built_record ''warn'' ''db:q'' [JStr ''w''] example_world
                   sampled_state)) sampled_state)"
      using emit_accepted_fixed[OF sampled_state_facts(2) _ sampled_state_facts(6) example_world_fixed,
          of "[JStr ''w'']"] s0[OF sampled_state_facts(5)] by auto
    have "run_ops two_calls (example_world, sampled_state)
          = Some (w', addToBuffer (trimmed_entry (built_record ''warn'' ''db:q'' [JStr ''w''] example_world
                   sampled_state)) sampled_state)"
      by (simp add: two_calls_def a b)
    then show ?thesis
      by (simp add: addToBuffer_def b0 trimmed_entry_def pv preview_of_text)
  qed
  have 3: "map_option (\<lambda>r. map entry_preview (buffer (snd r)))
        (run_ops two_calls (example_world, ?sd)) = Some [JStr ''d'']"
  proof -
    let ?st1 = "addToBuffer (trimmed_entry (built_record ''debug'' ''db:q'' [JStr ''d''] example_world ?sd)) ?sd"
    obtain w' where a: "emit ''debug'' ''db:q'' [JStr ''d''] (example_world, ?sd) = Some (w', ?st1)"
      and d: "delivered w' = delivered example_world @ map (\<lambda>f. (f, built_record ''debug'' ''db:q'' [JStr ''d''] example_world ?sd)) (transports ?sd)"
      using emit_accepted_fixed[OF sampled_debug_facts(2) _ sampled_debug_facts(4) example_world_fixed,
          of "[JStr ''d'']"] s0[OF sampled_debug_facts(3)] by auto
    have "emit ''debug'' ''db:q'' [JStr ''d''] (example_world, ?sd) = Some (w', ?st1)" by (rule a)
    from emit_cases[OF this] emit_draws[OF this]
    have w': "\<exists>p ds. w' = example_world\<lparr>draws := 1, printed := p, delivered := ds\<rparr>"
      by (auto simp: sampled_debug_facts example_world_def)
    then obtain p ds where w'': "w' = example_world\<lparr>draws := 1, printed := p, delivered := ds\<rparr>" by blast
    have w3: "w' = (example_world\<lparr>printed := p, delivered := ds\<rparr>)\<lparr>draws := 1\<rparr>"
      unfolding w'' by simp
    have r1: "random (example_world\<lparr>printed := p, delivered := ds\<rparr>) 1 = 3 / 4"
      by (simp add: example_world_def)
    have lp: "level_passes ''warn'' ''db:q'' ?st1"
      using sampled_debug_facts(1) level_passes_frame[of ?st1 ?sd] by simp
    have fr: "first_rule (sampleRules ?st1) ''db:q'' = Some (1 / 2)"
      using sampled_debug_facts(3) by simp
    have sp: "shouldPassSampling (JStr ''db:q'') ?st1 w'
              = (False, (example_world\<lparr>printed := p, delivered := ds\<rparr>)\<lparr>draws := 2\<rparr>)"
      unfolding w3 using s1[OF fr r1] .
    have b: "emit ''warn'' ''db:q'' [JStr ''w''] (w', ?st1)
             = Some ((example_world\<lparr>printed := p, delivered := ds\<rparr>)\<lparr>draws := 2\<rparr>, ?st1)"
      using emit_rejected_sampling[OF lp, of w' "[JStr ''w'']"] sp by simp
    have "run_ops two_calls (example_world, ?sd)
          = Some ((example_world\<lparr>printed := p, delivered := ds\<rparr>)\<lparr>draws := 2\<rparr>, ?st1)"
      by (simp add: two_calls_def a b)
    then show ?thesis
      by (simp add: addToBuffer_def b0 trimmed_entry_def pv preview_of_text)
  qed
  from sampled_state_facts(1,2) sampled_debug_facts(1) 1 2 3 show ?thesis by blast
qed

lemma filtered_state_facts:
  "level_passes ''info'' ''db'' filtered_state"
  "first_rule (sampleRules filtered_state) ''db'' = None"
  "\<not> isNamespaceEnabled (JStr ''db'') filtered_state"
  by (simp_all add: level_passes_def call_weight_def LEVELS_def getEffectiveLevelWeight_def
      filtered_state_def enableNamespaces_def allow_all_def createWildcardRegex_atoms
      is_space_def trim_def Let_def initial_state_def ns_string_def isNamespaceEnabled_def
      ns_or_global_def test_anchored matches_wildcard line_terminator_def)

theorem emit_decision_order_witness:
  "\<not> level_passes ''debug'' ''db:q'' sampled_state
   \<and> emit ''debug'' ''db:q'' [] (example_world, sampled_state) = Some (example_world, sampled_state)
   \<and> level_passes ''warn'' ''db:q'' sampled_state
   \<and> first_rule (sampleRules sampled_state) ''db:q'' = Some (1 / 2)
   \<and> emit ''warn'' ''db:q'' [] (example_world\<lparr>draws := 1\<rparr>, sampled_state)
       = Some (example_world\<lparr>draws := 2\<rparr>, sampled_state)
   \<and> level_passes ''info'' ''db'' filtered_state
   \<and> first_rule (sampleRules filtered_state) ''db'' = None
   \<and> \<not> isNamespaceEnabled (JStr ''db'') filtered_state
   \<and> emit ''info'' ''db'' [] (example_world, filtered_state) = Some (example_world, filtered_state)
   \<and> isNamespaceEnabled (JStr ''db:q'') sampled_state
   \<and> transports_fixed example_world \<and> entry_kept example_world
   \<and> (\<exists>w'. emit ''warn'' ''db:q'' [JStr ''w''] (example_world, sampled_state)
            = Some (w', addToBuffer (trimmed_entry (built_record ''warn'' ''db:q'' [JStr ''w'']
                          example_world sampled_state)) sampled_state)
          \<and> draws w' = 1)
   \<and> (\<exists>r. run_ops two_calls (example_world, sampled_state) = Some r \<and> draws (fst r) = 1)"
proof -
  have d: "draws example_world = 0" by (simp add: example_world_def)
  have e1: "example_world\<lparr>draws := Suc 0\<rparr> = example_world\<lparr>draws := 1\<rparr>" by simp
  have r0: "random example_world 0 = 1 / 4" "random (example_world\<lparr>draws := 1\<rparr>) 1 = 3 / 4"
    by (simp_all add: example_world_def)
  note f = sampled_state_facts filtered_state_facts example_world_fixed
  from emit_decision_order[of "''debug''" "''db:q''" sampled_state "[]" example_world "1 / 2" "[]"] f
  have a: "emit ''debug'' ''db:q'' [] (example_world, sampled_state) = Some (example_world, sampled_state)"
    by blast
  from emit_decision_order[of "''warn''" "''db:q''" sampled_state "[]" "example_world\<lparr>draws := 1\<rparr>" "1 / 2" "[]"] f r0
  have b: "emit ''warn'' ''db:q'' [] (example_world\<lparr>draws := 1\<rparr>, sampled_state)
       = Some (example_world\<lparr>draws := 2\<rparr>, sampled_state)"
    by simp
  from emit_decision_order[of "''info''" "''db''" filtered_state "[]" example_world "1 / 2" "[]"] f
  have c: "emit ''info'' ''db'' [] (example_world, filtered_state) = Some (example_world, filtered_state)"
    by simp
  from emit_decision_order[of "''warn''" "''db:q''" sampled_state "[JStr ''w'']" example_world "1 / 2" two_calls]
    f r0 d
  have g: "(\<exists>w'. emit ''warn'' ''db:q'' [JStr ''w''] (example_world, sampled_state)
            = Some (w', addToBuffer (trimmed_entry (built_record ''warn'' ''db:q'' [JStr ''w'']
                          example_world sampled_state)) sampled_state)
          \<and> draws w' = 1)"
    and h: "\<forall>r. run_ops two_calls (example_world, sampled_state) = Some r \<longrightarrow>
              draws (fst r) = length (filter (drawing sampled_state) two_calls)"
    by (auto simp del: run_ops.simps)
  obtain r where r: "run_ops two_calls (example_world, sampled_state) = Some r"
    using run_ops_returns[of "(example_world, sampled_state)" two_calls] f by auto
  have "length (filter (drawing sampled_state) two_calls) = 1"
    by (simp add: two_calls_def f)
  then have i: "\<exists>r. run_ops two_calls (example_world, sampled_state) = Some r \<and> draws (fst r) = 1"
    using h r by auto
  from f a b c g i show ?thesis by blast
qed

section \<open>Dedup by key\<close>

lemma addToBuffer_onceKeys [simp]: "onceKeys (addToBuffer e st) = onceKeys st"
  by (simp add: addToBuffer_def Let_def)

lemma addToBuffer_transports_buffer [simp]:
  "buffer (addToBuffer e (st\<lparr>transports := ts\<rparr>)) = buffer (addToBuffer e st)"
  by (simp add: addToBuffer_def Let_def)

lemma emit_onceKeys: "emit l n a (w, st) = Some (w', st') \<Longrightarrow> onceKeys st' = onceKeys st"
  using emit_cases[of l n a w st w' st'] by auto

lemma run_ops_frame:
  "run_ops xs ws = Some r \<Longrightarrow> \<exists>ts b. snd r = (snd ws)\<lparr>transports := ts, buffer := b\<rparr>"
proof (induction xs arbitrary: ws)
  case Nil
  then have "snd r = (snd ws)\<lparr>transports := transports (snd ws), buffer := buffer (snd ws)\<rparr>" by simp
  then show ?case by blast
next
  case (Cons x xs)
  from Cons.prems obtain ws' where x: "run_op x ws = Some ws'" and xs: "run_ops xs ws' = Some r"
    by (auto split: option.splits)
  obtain ts b where f: "snd ws' = (snd ws)\<lparr>transports := ts, buffer := b\<rparr>"
    using run_op_frame[OF x] by blast
  obtain ts' b' where g: "snd r = (snd ws')\<lparr>transports := ts', buffer := b'\<rparr>"
    using Cons.IH[OF xs] by blast
  have "snd r = (snd ws)\<lparr>transports := ts', buffer := b'\<rparr>" unfolding g f by simp
  then show ?case by blast
qed

lemma run_ops_onceKeys: "run_ops xs ws = Some r \<Longrightarrow> onceKeys (snd r) = onceKeys (snd ws)"
  using run_ops_frame[of xs ws r] by auto

lemma once_first:
  "js_String key = Inr text \<Longrightarrow> once_key lg text \<notin> onceKeys st \<Longrightarrow>
   once (key # args) (lg, w, st)
   = returned lg (emit ''info'' (logger_ns lg) args
                    (w, st\<lparr>onceKeys := insert (once_key lg text) (onceKeys st)\<rparr>))"
  by (simp add: once_def once_key_def Let_def)

lemma once_again:
  "js_String key = Inr text \<Longrightarrow> once_key lg text \<in> onceKeys st \<Longrightarrow>
   once (key # args) (lg, w, st) = Some (Inr (lg, w, st))"
  by (simp add: once_def once_key_def Let_def)

lemma returned_Some:
  "(returned lg r = Some (Inr (lg', w', st'))) = (lg' = lg \<and> r = Some (w', st'))"
  by (auto simp: returned_def split: option.splits)

lemma returned_no_error: "returned lg r \<noteq> Some (Inl e)"
  by (auto simp: returned_def split: option.splits)

lemma length_addToBuffer_le: "length (buffer (addToBuffer e st)) \<le> Suc (length (buffer st))"
proof -
  have "length (drop k (buffer st @ [e])) \<le> Suc (length (buffer st))" for k
    by (simp del: drop_append)
  then show ?thesis
    by (simp add: addToBuffer_def Let_def del: drop_append length_drop)
qed

lemma emit_at_most_one:
  "emit l n a (w, st) = Some (w', st') \<Longrightarrow> length (buffer st') \<le> Suc (length (buffer st))"
  using emit_cases[of l n a w st w' st'] length_addToBuffer_le by auto

lemma emit_accepted_one:
  assumes "level_passes l n st" "fst (shouldPassSampling (JStr n) st w)" "isNamespaceEnabled (JStr n) st"
    and "emit l n a (w, st) = Some (w', st')"
  shows "\<exists>e. buffer st' = buffer (addToBuffer e st)"
proof -
  let ?w2 = "printed_world l n a st (snd (shouldPassSampling (JStr n) st w))"
  from assms(4) emit_accepted[OF assms(1,2,3), of a]
  obtain w3 e' st3 where n: "notifyTransports (built_record l n a w st) st ?w2 = Some (w3, e', st3)"
    and r: "st' = addToBuffer (trimmed_entry e') st3"
    by (auto split: option.splits)
  obtain ts where "st3 = st\<lparr>transports := ts\<rparr>" using notifyTransports_frame[OF n] by blast
  then have "buffer st' = buffer (addToBuffer (trimmed_entry e') st)" using r by simp
  then show ?thesis by blast
qed

lemma onceKeys_frame [simp]:
  "getEffectiveLevelWeight n (st\<lparr>onceKeys := ks\<rparr>) = getEffectiveLevelWeight n st"
  "shouldPassSampling n (st\<lparr>onceKeys := ks\<rparr>) w = shouldPassSampling n st w"
  "isNamespaceEnabled n (st\<lparr>onceKeys := ks\<rparr>) = isNamespaceEnabled n st"
  "applyRedaction a l m (st\<lparr>onceKeys := ks\<rparr>) = applyRedaction a l m st"
  "maybeCaptureStack l (st\<lparr>onceKeys := ks\<rparr>) w = maybeCaptureStack l st w"
  by (auto simp: getEffectiveLevelWeight_def shouldPassSampling_def isNamespaceEnabled_def
      applyRedaction_def maybeCaptureStack_def Let_def split: option.splits)

lemma addToBuffer_onceKeys_buffer [simp]:
  "buffer (addToBuffer e (st\<lparr>onceKeys := ks\<rparr>)) = buffer (addToBuffer e st)"
  by (simp add: addToBuffer_def Let_def)

text \<open>
  C6, as the code has it. The composite key is the namespace, \<open>|\<close> and the text of the
  key. A call whose key is not present marks it and hands one call at level \<open>info\<close>,
  with the remaining arguments, to \<open>emit\<close>: one record when \<open>emit\<close> accepts it (level,
  sampling, namespace), the one built from the remaining arguments when the transports
  leave it alone, and none when \<open>emit\<close> rejects it; the call returns when no transport
  changes the list of transports. A call whose key is present changes nothing, so a
  second call produces no record. After \<open>resetOnce\<close> no key is present. No log call,
  append or import removes a key.
\<close>

theorem once_dedup:
  "js_String key = Inr txt \<longrightarrow>
     (once_key lg txt \<notin> onceKeys st \<longrightarrow>
        once (key # args) (lg, w, st)
          = returned lg (emit ''info'' (logger_ns lg) args
                           (w, st\<lparr>onceKeys := insert (once_key lg txt) (onceKeys st)\<rparr>))
        \<and> (transports_fixed w \<longrightarrow> (\<exists>r. once (key # args) (lg, w, st) = Some (Inr r)))
        \<and> (\<forall>r. once (key # args) (lg, w, st) = Some (Inr r) \<longrightarrow>
              once (key # args') r = Some (Inr r)
              \<and> length (buffer (snd (snd r))) \<le> Suc (length (buffer st)))
        \<and> (level_passes ''info'' (logger_ns lg) st
             \<and> fst (shouldPassSampling (JStr (logger_ns lg)) st w)
             \<and> isNamespaceEnabled (JStr (logger_ns lg)) st \<longrightarrow>
            (\<forall>r. once (key # args) (lg, w, st) = Some (Inr r) \<longrightarrow>
               (\<exists>e. buffer (snd (snd r)) = buffer (addToBuffer e st))
               \<and> (entry_kept w \<longrightarrow>
                    buffer (snd (snd r))
                    = buffer (addToBuffer (trimmed_entry (built_record ''info'' (logger_ns lg) args w st)) st)))))
     \<and> (once_key lg txt \<in> onceKeys st \<longrightarrow> once (key # args) (lg, w, st) = Some (Inr (lg, w, st)))
     \<and> once_key lg txt \<notin> onceKeys (resetOnce st)
     \<and> (once_key lg txt \<in> onceKeys st \<longrightarrow>
          (\<forall>r. run_ops xs (w, st) = Some r \<longrightarrow> once_key lg txt \<in> onceKeys (snd r)))"
proof
  assume key: "js_String key = Inr txt"
  let ?k = "once_key lg txt"
  let ?st1 = "st\<lparr>onceKeys := insert ?k (onceKeys st)\<rparr>"
  let ?ns = "logger_ns lg"
  have first: "?k \<notin> onceKeys st \<Longrightarrow>
      once (key # args) (lg, w, st) = returned lg (emit ''info'' ?ns args (w, ?st1))"
    by (rule once_first[OF key])
  have res: "emit ''info'' ?ns args (w, ?st1) = Some (w', st') \<and> lg' = lg"
    if "?k \<notin> onceKeys st" "once (key # args) (lg, w, st) = Some (Inr (lg', w', st'))" for lg' w' st'
    using first[OF that(1)] that(2) by (auto simp: returned_def split: option.splits)
  have ret: "?k \<notin> onceKeys st \<Longrightarrow> transports_fixed w \<Longrightarrow> \<exists>r. once (key # args) (lg, w, st) = Some (Inr r)"
  proof -
    assume nk: "?k \<notin> onceKeys st" and tf: "transports_fixed w"
    obtain r where "emit ''info'' ?ns args (w, ?st1) = Some r" using emit_returns[OF tf] by blast
    then show ?thesis using first[OF nk] by (cases r) (simp add: returned_def)
  qed
  have again: "once (key # args') r = Some (Inr r) \<and> length (buffer (snd (snd r))) \<le> Suc (length (buffer st))"
    if nk: "?k \<notin> onceKeys st" and r: "once (key # args) (lg, w, st) = Some (Inr r)" for r
  proof -
    obtain lg' w' st' where rr: "r = (lg', w', st')" by (cases r)
    have e: "emit ''info'' ?ns args (w, ?st1) = Some (w', st')" and l: "lg' = lg"
      using res[OF nk, of lg' w' st'] r rr by simp_all
    have "onceKeys st' = onceKeys ?st1" using emit_onceKeys[OF e] .
    then have "?k \<in> onceKeys st'" by simp
    then have "once (key # args') (lg, w', st') = Some (Inr (lg, w', st'))"
      by (rule once_again[OF key])
    moreover have "length (buffer st') \<le> Suc (length (buffer st))"
      using emit_at_most_one[OF e] by simp
    ultimately show ?thesis using rr l by simp
  qed
  have acc: "(\<exists>e. buffer (snd (snd r)) = buffer (addToBuffer e st))
             \<and> (entry_kept w \<longrightarrow> buffer (snd (snd r))
                  = buffer (addToBuffer (trimmed_entry (built_record ''info'' ?ns args w st)) st))"
    if nk: "?k \<notin> onceKeys st" and lp: "level_passes ''info'' ?ns st"
      and s: "fst (shouldPassSampling (JStr ?ns) st w)" and n: "isNamespaceEnabled (JStr ?ns) st"
      and r: "once (key # args) (lg, w, st) = Some (Inr r)" for r
  proof -
    obtain lg' w' st' where rr: "r = (lg', w', st')" by (cases r)
    have e: "emit ''info'' ?ns args (w, ?st1) = Some (w', st')"
      using res[OF nk, of lg' w' st'] r rr by simp
    have l1: "level_passes ''info'' ?ns ?st1" using lp by (simp add: level_passes_def)
    have s1: "fst (shouldPassSampling (JStr ?ns) ?st1 w)" using s by simp
    have n1: "isNamespaceEnabled (JStr ?ns) ?st1" using n by simp
    have b: "built_record ''info'' ?ns args w ?st1 = built_record ''info'' ?ns args w st"
      by (simp add: built_record_def)
    have one: "\<exists>e. buffer st' = buffer (addToBuffer e st)"
      using emit_accepted_one[OF l1 s1 n1 e] by simp
    have kept: "entry_kept w \<longrightarrow> buffer st'
                  = buffer (addToBuffer (trimmed_entry (built_record ''info'' ?ns args w st)) st)"
    proof
      assume k: "entry_kept w"
      from emit_accepted_kept[OF l1 s1 n1 k e] obtain ts where
        "st' = addToBuffer (trimmed_entry (built_record ''info'' ?ns args w ?st1)) (?st1\<lparr>transports := ts\<rparr>)"
        by blast
      then show "buffer st' = buffer (addToBuffer (trimmed_entry (built_record ''info'' ?ns args w st)) st)"
        unfolding b by simp
    qed
    from one kept show ?thesis using rr by simp
  qed
  have present: "?k \<in> onceKeys st \<Longrightarrow> once (key # args) (lg, w, st) = Some (Inr (lg, w, st))"
    by (rule once_again[OF key])
  have reset: "?k \<notin> onceKeys (resetOnce st)" by (simp add: resetOnce_def)
  have keep: "?k \<in> onceKeys st \<Longrightarrow> run_ops xs (w, st) = Some r \<Longrightarrow> ?k \<in> onceKeys (snd r)" for r
    using run_ops_onceKeys[of xs "(w, st)" r] by simp
  from first ret again acc present reset keep
  show "(once_key lg txt \<notin> onceKeys st \<longrightarrow>
        once (key # args) (lg, w, st)
          = returned lg (emit ''info'' (logger_ns lg) args
                           (w, st\<lparr>onceKeys := insert (once_key lg txt) (onceKeys st)\<rparr>))
        \<and> (transports_fixed w \<longrightarrow> (\<exists>r. once (key # args) (lg, w, st) = Some (Inr r)))
        \<and> (\<forall>r. once (key # args) (lg, w, st) = Some (Inr r) \<longrightarrow>
              once (key # args') r = Some (Inr r)
              \<and> length (buffer (snd (snd r))) \<le> Suc (length (buffer st)))
        \<and> (level_passes ''info'' (logger_ns lg) st
             \<and> fst (shouldPassSampling (JStr (logger_ns lg)) st w)
             \<and> isNamespaceEnabled (JStr (logger_ns lg)) st \<longrightarrow>
            (\<forall>r. once (key # args) (lg, w, st) = Some (Inr r) \<longrightarrow>
               (\<exists>e. buffer (snd (snd r)) = buffer (addToBuffer e st))
               \<and> (entry_kept w \<longrightarrow>
                    buffer (snd (snd r))
                    = buffer (addToBuffer (trimmed_entry (built_record ''info'' (logger_ns lg) args w st)) st)))))
     \<and> (once_key lg txt \<in> onceKeys st \<longrightarrow> once (key # args) (lg, w, st) = Some (Inr (lg, w, st)))
     \<and> once_key lg txt \<notin> onceKeys (resetOnce st)
     \<and> (once_key lg txt \<in> onceKeys st \<longrightarrow>
          (\<forall>r. run_ops xs (w, st) = Some r \<longrightarrow> once_key lg txt \<in> onceKeys (snd r)))"
    by blast
qed

lemma db_logger_ns [simp]: "logger_ns db_logger = ''db''"
  by (simp add: db_logger_def createLogger_def ns_or_global_def)

text \<open>
  With the level set to \<open>error\<close>, the call at level \<open>info\<close> is rejected: the first
  \<open>once\<close> marks the key and produces no record, the second produces none either.
\<close>

theorem once_dedup_counterexample:
  "once [JStr ''slow-query'', JStr ''took 2s''] (db_logger, example_world, error_state)
     = Some (Inr (db_logger, example_world, error_state\<lparr>onceKeys := {''db|slow-query''}\<rparr>))
   \<and> once [JStr ''slow-query'', JStr ''took 2s'']
         (db_logger, example_world, error_state\<lparr>onceKeys := {''db|slow-query''}\<rparr>)
     = Some (Inr (db_logger, example_world, error_state\<lparr>onceKeys := {''db|slow-query''}\<rparr>))
   \<and> buffer (error_state\<lparr>onceKeys := {''db|slow-query''}\<rparr>) = []
   \<and> delivered example_world = []"
proof -
  have k: "once_key db_logger ''slow-query'' = ''db|slow-query''" by (simp add: once_key_def)
  have ks: "onceKeys error_state = {}"
    by (simp add: error_state_def setLevel_def LEVELS_def initial_state_def)
  have rej: "\<not> level_passes ''info'' ''db'' (error_state\<lparr>onceKeys := {''db|slow-query''}\<rparr>)"
    by (simp add: level_passes_def call_weight_def LEVELS_def getEffectiveLevelWeight_def
        error_state_def setLevel_def initial_state_def ns_string_def)
  have 1: "once [JStr ''slow-query'', JStr ''took 2s''] (db_logger, example_world, error_state)
     = Some (Inr (db_logger, example_world, error_state\<lparr>onceKeys := {''db|slow-query''}\<rparr>))"
    using once_first[of "JStr ''slow-query''" "''slow-query''" db_logger error_state "[JStr ''took 2s'']" example_world]
      emit_rejected_level[OF rej, of "[JStr ''took 2s'']" example_world]
    by (simp add: k ks returned_def)
  have 2: "once [JStr ''slow-query'', JStr ''took 2s'']
         (db_logger, example_world, error_state\<lparr>onceKeys := {''db|slow-query''}\<rparr>)
     = Some (Inr (db_logger, example_world, error_state\<lparr>onceKeys := {''db|slow-query''}\<rparr>))"
    using once_again[of "JStr ''slow-query''" "''slow-query''" db_logger
        "error_state\<lparr>onceKeys := {''db|slow-query''}\<rparr>" "[JStr ''took 2s'']" example_world]
    by (simp add: k)
  have 3: "buffer (error_state\<lparr>onceKeys := {''db|slow-query''}\<rparr>) = []"
    by (simp add: error_state_def setLevel_def LEVELS_def initial_state_def)
  have 4: "delivered example_world = []" by (simp add: example_world_def)
  from 1 2 3 4 show ?thesis by blast
qed

theorem once_dedup_witness:
  "js_String (JStr ''slow-query'') = Inr ''slow-query''
   \<and> once_key db_logger ''slow-query'' \<notin> onceKeys (initial_state star_regex)
   \<and> transports_fixed example_world \<and> entry_kept example_world
   \<and> (\<exists>r. once [JStr ''slow-query'', JStr ''took 2s'']
                (db_logger, example_world, initial_state star_regex) = Some (Inr r)
          \<and> buffer (snd (snd r))
              = [text_entry ''2024-01-01T00:00:00.000Z'' ''info'' ''db'' ''took 2s'']
          \<and> once [JStr ''slow-query'', JStr ''again''] r = Some (Inr r))"
proof -
  let ?call = "once [JStr ''slow-query'', JStr ''took 2s''] (db_logger, example_world, initial_state star_regex)"
  have h: "js_String (JStr ''slow-query'') = Inr ''slow-query''" by simp
  have nk: "once_key db_logger ''slow-query'' \<notin> onceKeys (initial_state star_regex)"
    by (simp add: initial_state_def)
  have r: "built_record ''info'' ''db'' [JStr ''took 2s''] example_world (initial_state star_regex)
       = \<lparr>rec_time = JStr ''2024-01-01T00:00:00.000Z'', rec_level = JStr ''info'',
          rec_namespace = JStr ''db'', rec_preview = JStr ''took 2s'', rec_args = [JStr ''took 2s''],
          rec_stack = None\<rparr>"
    by (simp add: built_record_def LEVELS_def applyRedaction_def maybeCaptureStack_def
        initial_state_def example_world_def preview_of_text)
  have b: "buffer (addToBuffer (trimmed_entry (built_record ''info'' ''db'' [JStr ''took 2s''] example_world
                  (initial_state star_regex))) (initial_state star_regex))
           = [text_entry ''2024-01-01T00:00:00.000Z'' ''info'' ''db'' ''took 2s'']"
    unfolding r by (simp add: addToBuffer_def trimmed_entry_def initial_state_def text_entry_def)
  note t = once_dedup[of "JStr ''slow-query''" "''slow-query''" db_logger "initial_state star_regex"
      "[JStr ''took 2s'']" example_world "[JStr ''again'']" "[]", unfolded db_logger_ns]
  from t h nk example_world_fixed(1)
  obtain res where res: "?call = Some (Inr res)" by blast
  from t h nk res have again: "once [JStr ''slow-query'', JStr ''again''] res = Some (Inr res)"
    by blast
  from t h nk res initial_state_accepts example_world_fixed(2)
  have "buffer (snd (snd res))
        = buffer (addToBuffer (trimmed_entry (built_record ''info'' ''db'' [JStr ''took 2s''] example_world
                  (initial_state star_regex))) (initial_state star_regex))"
    by blast
  then have "buffer (snd (snd res)) = [text_entry ''2024-01-01T00:00:00.000Z'' ''info'' ''db'' ''took 2s'']"
    using b by simp
  then show ?thesis using h nk example_world_fixed res again by blast
qed

section \<open>Exceptions out of logger methods\<close>

text \<open>
  C1. A label or key whose conversion to a string throws makes \<open>once\<close>, \<open>count\<close>,
  \<open>countReset\<close>, \<open>time\<close> and \<open>timeEnd\<close> throw: \<open>String(key)\<close> and
  \<open>String(label || 'default')\<close> are evaluated outside every \<open>try\<close>.
\<close>

theorem label_conversion_throws:
  "once [null_prototype_object, JStr ''x''] (lg, w, st) = Some (Inl TypeError)
   \<and> count null_prototype_object (lg, w, st) = Some (Inl TypeError)
   \<and> countReset null_prototype_object (lg, w, st) = Some (Inl TypeError)
   \<and> time null_prototype_object (lg, w, st) = Some (Inl TypeError)
   \<and> timeEnd null_prototype_object (lg, w, st) = Some (Inl TypeError)"
  by (simp add: once_def count_def countReset_def time_def timeEnd_def label_key_def
      null_prototype_object_def)

text \<open>
  The rest of the claim holds. The six level methods throw nothing, for every argument
  list, redactor and set of transports, and return when no transport changes the list
  of transports; so do the other five methods whenever the conversion of the label does
  not throw.
\<close>

lemma logger_method_no_error: "logger_method name arguments (lg, w, st) \<noteq> Some (Inl e)"
  by (simp add: logger_method_def returned_no_error)

lemma returned_returns: "r = Some x \<Longrightarrow> \<exists>y. returned lg r = Some (Inr y)"
  by (cases x) (simp add: returned_def)

lemma logger_method_returns:
  "transports_fixed w \<Longrightarrow> \<exists>r. logger_method name arguments (lg, w, st) = Some (Inr r)"
  using emit_returns[of w name "logger_ns lg" arguments st] returned_returns
  by (auto simp: logger_method_def)

lemma label_methods_no_error:
  assumes "js_String label = Inr t"
  shows "once (label # args) (lg, w, st) \<noteq> Some (Inl e)"
    and "count label (lg, w, st) \<noteq> Some (Inl e)"
    and "countReset label (lg, w, st) \<noteq> Some (Inl e)"
    and "time label (lg, w, st) \<noteq> Some (Inl e)"
    and "timeEnd label (lg, w, st) \<noteq> Some (Inl e)"
  using assms
  by (auto simp: once_def count_def countReset_def time_def timeEnd_def label_key_def Let_def
      returned_no_error split: option.splits)

lemma label_methods_return:
  assumes "js_String label = Inr t" "transports_fixed w"
  shows "\<exists>r. once (label # args) (lg, w, st) = Some (Inr r)"
    and "\<exists>r. count label (lg, w, st) = Some (Inr r)"
    and "\<exists>r. countReset label (lg, w, st) = Some (Inr r)"
    and "\<exists>r. time label (lg, w, st) = Some (Inr r)"
    and "\<exists>r. timeEnd label (lg, w, st) = Some (Inr r)"
proof -
  have e: "\<exists>y. returned lg' (emit l n a (w, st')) = Some (Inr y)" for lg' l n a st'
    using emit_returns[OF assms(2), of l n a st'] returned_returns by blast
  show "\<exists>r. once (label # args) (lg, w, st) = Some (Inr r)"
    using assms(1) e by (simp add: once_def Let_def)
  show "\<exists>r. count label (lg, w, st) = Some (Inr r)"
    using assms(1) e by (simp add: count_def label_key_def Let_def)
  show "\<exists>r. countReset label (lg, w, st) = Some (Inr r)"
    using assms(1) e by (simp add: countReset_def label_key_def Let_def)
  show "\<exists>r. time label (lg, w, st) = Some (Inr r)"
    using assms(1) by (simp add: time_def label_key_def)
  show "\<exists>r. timeEnd label (lg, w, st) = Some (Inr r)"
    using assms(1) e by (simp add: timeEnd_def label_key_def Let_def split: option.splits)
qed

text \<open>The fallbacks: the original arguments, and the text \<open>[object]\<close>.\<close>

lemma applyRedaction_fallback:
  "redactorFn st = Some f \<Longrightarrow> f arr l n = Inl e \<Longrightarrow> applyRedaction arr l n st = arr"
  "redactorFn st = Some f \<Longrightarrow> f arr l n = Inr v \<Longrightarrow> \<not> isArray v \<Longrightarrow> applyRedaction arr l n st = arr"
  "redactorFn st = Some f \<Longrightarrow> f arr l n = Inr (JArr xs) \<Longrightarrow> applyRedaction arr l n st = xs"
  "redactorFn st = None \<Longrightarrow> applyRedaction arr l n st = arr"
  by (cases v; simp add: applyRedaction_def)+

lemma stringifyForPreview_fallback:
  "stringifyForPreview (JExotic s None) = ''[object]''"
  "stringifyForPreview (JArr [JBigInt 1]) = ''[object]''"
  by (simp_all add: stringifyForPreview_def JSON_stringify_def)
section \<open>JSON text of the history\<close>

lemma hex_value_hex_digit: "k < 16 \<Longrightarrow> hex_value (hex_digit k) = Some k"
  by (auto simp: hex_value_def hex_digit_def Let_def)

lemma parse_string_quote_char:
  "parse_string (quote_char c @ rest) = cons_result c (parse_string rest)"
proof -
  consider (q) "c = CHR 0x22" | (b) "c = CHR 0x5C" | (c8) "c = CHR 0x08" | (c12) "c = CHR 0x0C"
    | (c10) "c = CHR 0x0A" | (c13) "c = CHR 0x0D" | (c9) "c = CHR 0x09"
    | (ctl) "c \<noteq> CHR 0x22" "c \<noteq> CHR 0x5C" "c \<noteq> CHR 0x08" "c \<noteq> CHR 0x0C" "c \<noteq> CHR 0x0A" "c \<noteq> CHR 0x0D" "c \<noteq> CHR 0x09" "(of_char c :: nat) < 32"
    | (lit) "c \<noteq> CHR 0x22" "c \<noteq> CHR 0x5C" "\<not> (of_char c :: nat) < 32"
    by (cases "(of_char c :: nat) < 32") auto
  then show ?thesis
  proof cases
    case ctl
    let ?n = "of_char c :: nat"
    have h1: "hex_value (hex_digit (?n div 16)) = Some (?n div 16)"
      using ctl(8) by (intro hex_value_hex_digit) simp
    have h2: "hex_value (hex_digit (?n mod 16)) = Some (?n mod 16)"
      by (intro hex_value_hex_digit) simp
    have h0: "hex_value (CHR ''0'') = Some 0" by (simp add: hex_value_def)
    have c: "char_of (?n div 16 * 16 + ?n mod 16) = c" by simp
    show ?thesis using ctl h1 h2 h0 c
      by (simp add: quote_char_def)
  next
    case lit
    then have "quote_char c = [c]" by (auto simp: quote_char_def)
    then show ?thesis using lit by simp
  qed (simp_all add: quote_char_def unescape_def)
qed

lemma parse_string_quoted:
  "parse_string (concat (map quote_char s) @ CHR 0x22 # rest) = Some (s, rest)"
  by (induction s) (simp_all add: parse_string_quote_char cons_result_def)

lemma parse_string_quote:
  "parse_string (tl (quote s) @ rest) = Some (s, rest)"
  by (simp add: quote_def parse_string_quoted)

section \<open>Export and import round trip\<close>

lemma text_fields_entry: "text_fields e \<Longrightarrow> \<exists>t l n p. e = text_entry t l n p"
proof -
  assume a: "text_fields e"
  have s: "is_text x \<Longrightarrow> x = JStr (field_text x)" for x by (cases x) simp_all
  have "e = text_entry (field_text (entry_time e)) (field_text (entry_level e))
              (field_text (entry_namespace e)) (field_text (entry_preview e))"
    using a s[of "entry_time e"] s[of "entry_level e"] s[of "entry_namespace e"] s[of "entry_preview e"]
    by (cases e) (simp add: text_fields_def text_entry_def)
  then show ?thesis by blast
qed

lemma property_order_entry:
  "property_order [(''time'', a), (''level'', b), (''namespace'', c), (''preview'', d)]
   = [(''time'', a), (''level'', b), (''namespace'', c), (''preview'', d)]"
  by (simp add: property_order_def is_index_def is_digit_def)

lemma stringify_text_entry:
  "stringify ''  '' ''  '' (entry_value (text_entry t l n p)) = Inr (Some (entry_text (text_entry t l n p)))"
  by (simp add: entry_value_def wrap_def entry_text_def text_entry_def property_order_entry)

lemma stringify_entry:
  "text_fields e \<Longrightarrow> stringify ''  '' ''  '' (entry_value e) = Inr (Some (entry_text e))"
  using text_fields_entry[of e] stringify_text_entry by auto

lemma first_error_none: "first_error (map (\<lambda>e. Inr (f e)) es) = None"
  by (induction es) simp_all

lemma exportBuffer_text:
  assumes "list_all text_fields (buffer st)"
  shows "exportBuffer st =
     (if buffer st = [] then ''[]''
      else CHR ''['' # CHR 0x0A # ''  '' @ join entry_separator (map entry_text (buffer st)) @ CHR 0x0A # '']'')"
proof -
  have m: "map (\<lambda>x. stringify ''  '' ''  '' (entry_value x)) (buffer st)
           = map (\<lambda>e. Inr (Some (entry_text e))) (buffer st)"
    using assms by (intro map_cong) (auto simp: list_all_iff stringify_entry)
  have "stringify ''  '' [] (JArr (map entry_value (buffer st)))
        = Inr (Some (wrap ''['' '']'' ''  '' [] (map entry_text (buffer st))))"
    by (simp add: comp_def m first_error_none)
  then show ?thesis
    by (simp add: exportBuffer_def JSON_stringify_indent2_def wrap_def entry_separator_def)
qed

lemma skip_ws_simps [simp]:
  "skip_ws (CHR '' '' # s) = skip_ws s"
  "skip_ws (CHR 0x0A # s) = skip_ws s"
  "skip_ws (CHR 0x22 # s) = CHR 0x22 # s"
  "skip_ws (CHR ''{'' # s) = CHR ''{'' # s"
  "skip_ws (CHR ''}'' # s) = CHR ''}'' # s"
  "skip_ws (CHR ''['' # s) = CHR ''['' # s"
  "skip_ws (CHR '']'' # s) = CHR '']'' # s"
  "skip_ws (CHR '','' # s) = CHR '','' # s"
  "skip_ws (CHR '':'' # s) = CHR '':'' # s"
  "skip_ws [] = []"
  by (simp_all add: skip_ws_def is_json_ws_def)

lemma parse_members_entry:
  "parse_members (Suc d) (Suc (Suc (Suc (Suc k))))
     (CHR 0x0A # ''    '' @ quote ''time'' @ '': '' @ quote t @
      CHR '','' # CHR 0x0A # ''    '' @ quote ''level'' @ '': '' @ quote l @
      CHR '','' # CHR 0x0A # ''    '' @ quote ''namespace'' @ '': '' @ quote n @
      CHR '','' # CHR 0x0A # ''    '' @ quote ''preview'' @ '': '' @ quote p @
      CHR 0x0A # ''  }'' @ rest)
   = Some ([(''time'', JStr t), (''level'', JStr l), (''namespace'', JStr n), (''preview'', JStr p)], rest)"
proof -
  have key: "parse_string (tl (quote k) @ r) = Some (k, r)" for k r
    by (rule parse_string_quote)
  have q: "quote k = CHR 0x22 # tl (quote k)" for k by (simp add: quote_def)
  have v: "parse_value (Suc d) (CHR '' '' # CHR 0x22 # tl (quote s) @ r) = Some (JStr s, r)" for s r
    by (simp add: key)
  show ?thesis
    apply (subst (1 2 3 4 5 6 7 8) q)
    apply (simp only: parse_members.simps append_Cons append_Nil skip_ws_simps list.case key
        option.case prod.case v if_True if_False refl simp_thms char.inject)
    apply (simp add: add_member_def)
    done
qed

lemma parse_value_text_entry:
  "parse_value (Suc (Suc d)) (entry_text (text_entry t l n p) @ rest)
   = Some (entry_value (text_entry t l n p), rest)"
proof -
  define cs where "cs =
      CHR 0x0A # ''    '' @ quote ''time'' @ '': '' @ quote t @
      CHR '','' # CHR 0x0A # ''    '' @ quote ''level'' @ '': '' @ quote l @
      CHR '','' # CHR 0x0A # ''    '' @ quote ''namespace'' @ '': '' @ quote n @
      CHR '','' # CHR 0x0A # ''    '' @ quote ''preview'' @ '': '' @ quote p @
      CHR 0x0A # ''  }'' @ rest"
  have et: "entry_text (text_entry t l n p) @ rest = CHR ''{'' # cs"
    by (simp add: entry_text_def cs_def text_entry_def)
  have len: "length cs = Suc (Suc (Suc (Suc (length (drop 4 cs)))))"
    by (simp add: cs_def)
  obtain y where sk: "skip_ws cs = CHR 0x22 # y"
    by (simp add: cs_def quote_def)
  have pm: "parse_members (Suc d) (length cs) cs
            = Some ([(''time'', JStr t), (''level'', JStr l),
                     (''namespace'', JStr n), (''preview'', JStr p)], rest)"
    by (subst len, unfold cs_def, rule parse_members_entry)
  show ?thesis
    unfolding et by (simp add: sk pm entry_value_def text_entry_def)
qed

lemma parse_value_entry:
  "text_fields e \<Longrightarrow> parse_value (Suc (Suc d)) (entry_text e @ rest) = Some (entry_value e, rest)"
  using text_fields_entry[of e] parse_value_text_entry by auto

lemma parse_elements_entries:
  "es \<noteq> [] \<Longrightarrow> list_all text_fields es \<Longrightarrow> length es \<le> k \<Longrightarrow>
   parse_elements (Suc (Suc d)) k
     (CHR 0x0A # ''  '' @ join entry_separator (map entry_text es) @ CHR 0x0A # '']'' @ rest)
   = Some (map entry_value es, rest)"
proof (induction es arbitrary: k)
  case Nil
  then show ?case by simp
next
  case (Cons e es)
  then obtain k' where k: "k = Suc k'" by (cases k) auto
  have te: "text_fields e" and tes: "list_all text_fields es" using Cons.prems(2) by simp_all
  have pv: "parse_value (Suc (Suc d)) (CHR 0x0A # ''  '' @ entry_text e @ r) = Some (entry_value e, r)" for r
  proof -
    have "skip_ws (CHR 0x0A # ''  '' @ entry_text e @ r) = entry_text e @ r"
      by (simp add: entry_text_def)
    moreover have "parse_value (Suc (Suc d)) s = parse_value (Suc (Suc d)) (skip_ws s)" for s
      by (simp add: skip_ws_def)
    ultimately show ?thesis using parse_value_entry[OF te, of d r] by metis
  qed
  show ?case
  proof (cases es)
    case Nil
    then show ?thesis using pv[of "CHR 0x0A # '']'' @ rest"] k by simp
  next
    case (Cons e' es')
    have j: "join entry_separator (map entry_text (e # es))
             = entry_text e @ CHR '','' # CHR 0x0A # ''  '' @ join entry_separator (map entry_text es)"
      using Cons by (simp add: entry_separator_def)
    have ih: "parse_elements (Suc (Suc d)) k'
        (CHR 0x0A # ''  '' @ join entry_separator (map entry_text es) @ CHR 0x0A # '']'' @ rest)
        = Some (map entry_value es, rest)"
      using Cons.IH[of k'] Cons.prems k Cons tes by simp
    show ?thesis
      unfolding k j parse_elements.simps
      using pv[of "CHR '','' # CHR 0x0A # ''  '' @ join entry_separator (map entry_text es) @ CHR 0x0A # '']'' @ rest"] ih
      by simp
  qed
qed

lemma length_join_entries: "length es \<le> length (join sep (map entry_text es))"
proof (induction es)
  case Nil
  then show ?case by simp
next
  case (Cons e es)
  have "1 \<le> length (entry_text e)" by (simp add: entry_text_def)
  then show ?case using Cons by (cases es) auto
qed

lemma JSON_parse_exportBuffer:
  assumes tf: "list_all text_fields (buffer st)"
  shows "JSON_parse (exportBuffer st) = Inr (JArr (map entry_value (buffer st)))"
proof (cases "buffer st = []")
  case True
  then show ?thesis by (simp add: exportBuffer_text[OF tf] JSON_parse_def)
next
  case False
  define cs where "cs = CHR 0x0A # ''  '' @ join entry_separator (map entry_text (buffer st)) @ CHR 0x0A # '']'' @ []"
  have ex: "exportBuffer st = CHR ''['' # cs"
    using False by (simp add: exportBuffer_text[OF tf] cs_def)
  have len: "length (buffer st) \<le> length cs"
    using length_join_entries[of "buffer st" entry_separator] by (simp add: cs_def)
  obtain n where n: "length cs = Suc n" by (cases cs) (simp_all add: cs_def)
  obtain b bs where b: "buffer st = b # bs" using False by (cases "buffer st") auto
  obtain y where sk: "skip_ws cs = CHR ''{'' # y"
    by (cases bs) (simp_all add: cs_def b entry_text_def)
  have pe: "parse_elements (Suc (Suc n)) (Suc n) cs = Some (map entry_value (buffer st), [])"
    using parse_elements_entries[OF False tf, of "Suc n" n "[]"] len n
    by (simp add: cs_def)
  have "parse_value (Suc (Suc (Suc n))) (CHR ''['' # cs) = Some (JArr (map entry_value (buffer st)), [])"
    by (simp add: sk pe n del: parse_elements.simps)
  then have "parse_value (Suc (length (CHR ''['' # cs))) (CHR ''['' # cs) = Some (JArr (map entry_value (buffer st)), [])"
    by (simp add: n)
  then show ?thesis by (simp add: JSON_parse_def ex)
qed

lemma import_entry_value:
  "text_fields e \<Longrightarrow> entry_time e \<noteq> JStr [] \<Longrightarrow> entry_level e \<noteq> JStr [] \<Longrightarrow>
   entry_namespace e \<noteq> JStr [] \<Longrightarrow> import_entry w (entry_value e) = Inr e"
proof -
  assume a: "text_fields e" and b: "entry_time e \<noteq> JStr []" "entry_level e \<noteq> JStr []"
    "entry_namespace e \<noteq> JStr []"
  obtain t l n p where e: "e = text_entry t l n p" using text_fields_entry[OF a] by blast
  show ?thesis using b unfolding e
    by (simp add: import_entry_def field_or_def entry_value_def text_entry_def)
qed

lemma import_entries_values:
  "list_all (\<lambda>e. text_fields e \<and> entry_time e \<noteq> JStr [] \<and> entry_level e \<noteq> JStr []
                 \<and> entry_namespace e \<noteq> JStr []) es \<Longrightarrow>
   import_entries w (map entry_value es) = Inr es"
  by (induction es) (simp_all add: import_entry_value)

lemma importBuffer_exported:
  "list_all text_fields (buffer st) \<Longrightarrow>
   import_entries w (map entry_value (buffer st)) = Inr bs \<Longrightarrow>
   importBuffer (JStr (exportBuffer st)) no_append w st
   = Inr (True, st\<lparr>buffer := trim_front (bufferSize (config st)) bs\<rparr>)"
  by (simp add: importBuffer_def append_mode_def import_source_def JSON_parse_exportBuffer
      trim_front_def Let_def no_append_def)

lemma stringify_array_some: "stringify gap ind (JArr xs) \<noteq> Inr None"
  by (simp add: Let_def split: option.splits)

text \<open>
  C9, as the code has it. \<open>exportBuffer\<close> throws nothing: it returns the text that
  \<open>JSON.stringify\<close> gives for the entries, and \<open>[]\<close> when \<open>JSON.stringify\<close> throws. For
  a history within its capacity whose entries hold four strings, with a non-empty time,
  level and namespace, the text parses back to the entries, in order, and
  \<open>importBuffer(exportBuffer(), {append: false})\<close> returns true and leaves the state as
  it was.
\<close>

theorem export_import_roundtrip:
  "(int (length (buffer st)) \<le> bufferSize (config st)
      \<and> list_all (\<lambda>e. text_fields e \<and> entry_time e \<noteq> JStr [] \<and> entry_level e \<noteq> JStr []
                      \<and> entry_namespace e \<noteq> JStr []) (buffer st)
     \<longrightarrow> importBuffer (JStr (exportBuffer st)) no_append w st = Inr (True, st))
   \<and> (list_all text_fields (buffer st) \<longrightarrow>
        JSON_parse (exportBuffer st) = Inr (JArr (map entry_value (buffer st))))
   \<and> (JSON_stringify_indent2 (JArr (map entry_value (buffer st))) = Inl err \<longrightarrow>
        exportBuffer st = ''[]'')
   \<and> (JSON_stringify_indent2 (JArr (map entry_value (buffer st))) = Inr (Some t) \<longrightarrow>
        exportBuffer st = t)
   \<and> JSON_stringify_indent2 (JArr (map entry_value (buffer st))) \<noteq> Inr None"
proof -
  have 1: "importBuffer (JStr (exportBuffer st)) no_append w st = Inr (True, st)"
    if cap: "int (length (buffer st)) \<le> bufferSize (config st)"
      and ne: "list_all (\<lambda>e. text_fields e \<and> entry_time e \<noteq> JStr [] \<and> entry_level e \<noteq> JStr []
                      \<and> entry_namespace e \<noteq> JStr []) (buffer st)"
  proof -
    have tf: "list_all text_fields (buffer st)" using ne by (simp add: list_all_iff)
    have "trim_front (bufferSize (config st)) (buffer st) = buffer st"
      using cap by (simp add: trim_front_def)
    then show ?thesis
      using importBuffer_exported[OF tf import_entries_values[OF ne], of w] by simp
  qed
  have 2: "list_all text_fields (buffer st) \<longrightarrow>
        JSON_parse (exportBuffer st) = Inr (JArr (map entry_value (buffer st)))"
    using JSON_parse_exportBuffer[of st] by blast
  have 3: "JSON_stringify_indent2 (JArr (map entry_value (buffer st))) = Inl err \<longrightarrow>
        exportBuffer st = ''[]''"
    by (simp add: exportBuffer_def)
  have 4: "JSON_stringify_indent2 (JArr (map entry_value (buffer st))) = Inr (Some t) \<longrightarrow>
        exportBuffer st = t"
    by (simp add: exportBuffer_def)
  have 5: "JSON_stringify_indent2 (JArr (map entry_value (buffer st))) \<noteq> Inr None"
    unfolding JSON_stringify_indent2_def by (rule stringify_array_some)
  from 1 2 3 4 5 show ?thesis by blast
qed

text \<open>
  After \<open>updateConfig({bufferSize: 1})\<close> on a history of two entries, the round trip
  keeps the last entry only; an entry whose level is the empty string (as
  \<open>importBuffer([{level: []}])\<close> stores it) comes back with the level \<open>log\<close>; an entry
  whose preview a transport has replaced by the number 7 comes back with the string
  \<open>7\<close>; and one whose preview a transport has replaced by a BigInt makes \<open>exportBuffer\<close>
  return \<open>[]\<close>, so that the round trip empties the history.
\<close>

lemma show_int_7: "show_int 7 = ''7''"
  by code_simp

lemma number_entry_text:
  "exportBuffer ((initial_state star_regex)\<lparr>buffer := [number_entry]\<rparr>)
   = CHR ''['' # CHR 0x0A # ''  '' @
     (CHR ''{'' # CHR 0x0A # ''    '' @ quote ''time'' @ '': '' @ quote ''t'' @
      CHR '','' # CHR 0x0A # ''    '' @ quote ''level'' @ '': '' @ quote ''info'' @
      CHR '','' # CHR 0x0A # ''    '' @ quote ''namespace'' @ '': '' @ quote ''app'' @
      CHR '','' # CHR 0x0A # ''    '' @ quote ''preview'' @ '': 7'' @
      CHR 0x0A # ''  }'') @ CHR 0x0A # '']''"
  by (simp add: exportBuffer_def JSON_stringify_indent2_def number_entry_def entry_value_def
      wrap_def property_order_entry show_int_7 initial_state_def)

lemma number_entry_parse:
  "JSON_parse (exportBuffer ((initial_state star_regex)\<lparr>buffer := [number_entry]\<rparr>))
   = Inr (JArr [JObj [(''time'', JStr ''t''), (''level'', JStr ''info''), (''namespace'', JStr ''app''),
                      (''preview'', JNum 7)]])"
  unfolding number_entry_text by code_simp

theorem export_import_roundtrip_counterexample:
  "buffer shrunk_state = [entry_of ''a'', entry_of ''b'']
   \<and> map_sum id (\<lambda>r. (fst r, buffer (snd r)))
        (importBuffer (JStr (exportBuffer shrunk_state)) no_append example_world shrunk_state)
       = Inr (True, [entry_of ''b''])
   \<and> map_sum id (\<lambda>r. (fst r, buffer (snd r)))
        (importBuffer (JStr (exportBuffer ((initial_state star_regex)\<lparr>buffer := [blank_level_entry]\<rparr>)))
           no_append example_world ((initial_state star_regex)\<lparr>buffer := [blank_level_entry]\<rparr>))
       = Inr (True, [blank_level_entry\<lparr>entry_level := JStr ''log''\<rparr>])
   \<and> map_sum id (\<lambda>r. (fst r, buffer (snd r)))
        (importBuffer (JStr (exportBuffer ((initial_state star_regex)\<lparr>buffer := [number_entry]\<rparr>)))
           no_append example_world ((initial_state star_regex)\<lparr>buffer := [number_entry]\<rparr>))
       = Inr (True, [number_entry\<lparr>entry_preview := JStr ''7''\<rparr>])
   \<and> exportBuffer ((initial_state star_regex)\<lparr>buffer := [bigint_entry]\<rparr>) = ''[]''
   \<and> map_sum id (\<lambda>r. (fst r, buffer (snd r)))
        (importBuffer (JStr (exportBuffer ((initial_state star_regex)\<lparr>buffer := [bigint_entry]\<rparr>)))
           no_append example_world ((initial_state star_regex)\<lparr>buffer := [bigint_entry]\<rparr>))
       = Inr (True, [])"
proof -
  let ?blank = "(initial_state star_regex)\<lparr>buffer := [blank_level_entry]\<rparr>"
  let ?number = "(initial_state star_regex)\<lparr>buffer := [number_entry]\<rparr>"
  let ?bigint = "(initial_state star_regex)\<lparr>buffer := [bigint_entry]\<rparr>"
  have t1: "list_all text_fields (buffer shrunk_state)"
    by (simp add: shrunk_state_simps entry_of_def text_entry_def text_fields_def)
  have t2: "list_all text_fields (buffer ?blank)"
    by (simp add: blank_level_entry_def text_entry_def text_fields_def)
  have 1: "import_entries example_world (map entry_value (buffer shrunk_state))
           = Inr [entry_of ''a'', entry_of ''b'']"
    by (simp add: shrunk_state_simps import_entry_def field_or_def entry_value_def entry_of_def text_entry_def)
  have 2: "import_entries example_world (map entry_value (buffer ?blank))
           = Inr [blank_level_entry\<lparr>entry_level := JStr ''log''\<rparr>]"
    by (simp add: import_entry_def field_or_def entry_value_def blank_level_entry_def text_entry_def)
  have a: "map_sum id (\<lambda>r. (fst r, buffer (snd r)))
        (importBuffer (JStr (exportBuffer shrunk_state)) no_append example_world shrunk_state)
       = Inr (True, [entry_of ''b''])"
    using importBuffer_exported[OF t1 1] by (simp add: shrunk_state_simps trim_front_def)
  have b: "map_sum id (\<lambda>r. (fst r, buffer (snd r)))
        (importBuffer (JStr (exportBuffer ?blank)) no_append example_world ?blank)
       = Inr (True, [blank_level_entry\<lparr>entry_level := JStr ''log''\<rparr>])"
    using importBuffer_exported[OF t2 2] by (simp add: trim_front_def initial_state_def)
  have c: "map_sum id (\<lambda>r. (fst r, buffer (snd r)))
        (importBuffer (JStr (exportBuffer ?number)) no_append example_world ?number)
       = Inr (True, [number_entry\<lparr>entry_preview := JStr ''7''\<rparr>])"
  proof -
    have m: "append_mode no_append = Inr False" by (simp add: append_mode_def no_append_def)
    have s: "import_source (JStr (exportBuffer ?number))
             = Inr (JArr [JObj [(''time'', JStr ''t''), (''level'', JStr ''info''),
                                (''namespace'', JStr ''app''), (''preview'', JNum 7)]])"
      by (simp add: import_source_def number_entry_parse)
    have i: "import_entries example_world [JObj [(''time'', JStr ''t''), (''level'', JStr ''info''),
                                (''namespace'', JStr ''app''), (''preview'', JNum 7)]]
             = Inr [number_entry\<lparr>entry_preview := JStr ''7''\<rparr>]"
      by (simp add: import_entry_def field_or_def number_entry_def show_int_7)
    show ?thesis
      unfolding importBuffer_read[OF m s i]
      by (simp add: trim_front_def initial_state_def)
  qed
  have d: "exportBuffer ?bigint = ''[]''"
    by (simp add: exportBuffer_def JSON_stringify_indent2_def bigint_entry_def entry_value_def)
  have e: "map_sum id (\<lambda>r. (fst r, buffer (snd r)))
        (importBuffer (JStr (exportBuffer ?bigint)) no_append example_world ?bigint)
       = Inr (True, [])"
    unfolding d
    by (simp add: importBuffer_def append_mode_def no_append_def import_source_def JSON_parse_def
        initial_state_def)
  from shrunk_state_simps(2) a b c d e show ?thesis by blast
qed

lemma two_entry_state_simps:
  "buffer two_entry_state = [entry_of ''a'', entry_of [CHR 0x22, CHR 0x0A, CHR 0x01]]"
  "bufferSize (config two_entry_state) = 500"
  by (simp_all add: two_entry_state_def addToBuffer_def initial_state_def Let_def)

theorem export_import_roundtrip_witness:
  "int (length (buffer two_entry_state)) \<le> bufferSize (config two_entry_state)
   \<and> list_all (\<lambda>e. text_fields e \<and> entry_time e \<noteq> JStr [] \<and> entry_level e \<noteq> JStr []
                   \<and> entry_namespace e \<noteq> JStr []) (buffer two_entry_state)
   \<and> importBuffer (JStr (exportBuffer two_entry_state)) no_append example_world two_entry_state
       = Inr (True, two_entry_state)
   \<and> JSON_parse (exportBuffer two_entry_state) = Inr (JArr (map entry_value (buffer two_entry_state)))
   \<and> JSON_stringify_indent2 (JArr (map entry_value
        (buffer ((initial_state star_regex)\<lparr>buffer := [bigint_entry]\<rparr>)))) = Inl TypeError
   \<and> exportBuffer ((initial_state star_regex)\<lparr>buffer := [bigint_entry]\<rparr>) = ''[]''
   \<and> JSON_stringify_indent2 (JArr (map entry_value (buffer (initial_state star_regex)))) = Inr (Some ''[]'')
   \<and> exportBuffer (initial_state star_regex) = ''[]''"
proof -
  let ?bigint = "(initial_state star_regex)\<lparr>buffer := [bigint_entry]\<rparr>"
  have h1: "int (length (buffer two_entry_state)) \<le> bufferSize (config two_entry_state)"
    by (simp add: two_entry_state_simps)
  have h2: "list_all (\<lambda>e. text_fields e \<and> entry_time e \<noteq> JStr [] \<and> entry_level e \<noteq> JStr []
                   \<and> entry_namespace e \<noteq> JStr []) (buffer two_entry_state)"
    by (simp add: two_entry_state_simps entry_of_def text_entry_def text_fields_def)
  then have h3: "list_all text_fields (buffer two_entry_state)" by (simp add: list_all_iff)
  have h4: "JSON_stringify_indent2 (JArr (map entry_value (buffer ?bigint))) = Inl TypeError"
    by (simp add: JSON_stringify_indent2_def bigint_entry_def entry_value_def)
  have h5: "JSON_stringify_indent2 (JArr (map entry_value (buffer (initial_state star_regex)))) = Inr (Some ''[]'')"
    by (simp add: JSON_stringify_indent2_def initial_state_def wrap_def)
  from export_import_roundtrip[of two_entry_state example_world TypeError "''[]''"]
       export_import_roundtrip[of ?bigint example_world TypeError "''[]''"]
       export_import_roundtrip[of "initial_state star_regex" example_world TypeError "''[]''"]
       h1 h2 h3 h4 h5
  show ?thesis by blast
qed

end
